theory Spec2Isabelle
  imports Main "HOL-Library.Word" "HOL-Library.Multiset"
begin

section \<open>JavaScript strings\<close>

text \<open>
  A JavaScript string is a sequence of 16-bit code units; \<open>length\<close> counts code
  units, as \<^verbatim>\<open>String.prototype.length\<close> does. \<open>lit\<close> embeds an ASCII literal of
  the source.
\<close>

type_synonym jschar = "16 word"
type_synonym jsstring = "jschar list"

definition lit :: "string \<Rightarrow> jsstring" where
  "lit s = map (\<lambda>c. of_char c) s"

text \<open>The code units that \<^verbatim>\<open>trim()\<close> strips: WhiteSpace and LineTerminator.\<close>

definition js_ws :: "jschar \<Rightarrow> bool" where
  "js_ws c \<longleftrightarrow>
     c = 0x09 \<or> c = 0x0A \<or> c = 0x0B \<or> c = 0x0C \<or> c = 0x0D \<or> c = 0x20 \<or> c = 0xA0 \<or>
     c = 0x1680 \<or> (0x2000 \<le> c \<and> c \<le> 0x200A) \<or> c = 0x2028 \<or> c = 0x2029 \<or>
     c = 0x202F \<or> c = 0x205F \<or> c = 0x3000 \<or> c = 0xFEFF"

definition trim :: "jsstring \<Rightarrow> jsstring" where
  "trim s = rev (dropWhile js_ws (rev (dropWhile js_ws s)))"

text \<open>\<^verbatim>\<open>s.startsWith(p)\<close>\<close>

definition startsWith :: "jsstring \<Rightarrow> jsstring \<Rightarrow> bool" where
  "startsWith s p \<longleftrightarrow> take (length p) s = p"

text \<open>\<^verbatim>\<open>s.includes(p)\<close>\<close>

fun js_includes :: "jsstring \<Rightarrow> jsstring \<Rightarrow> bool" where
  "js_includes [] p = (p = [])"
| "js_includes (c # cs) p = (startsWith (c # cs) p \<or> js_includes cs p)"

text \<open>
  \<^verbatim>\<open>s.replace(p, '')\<close> with a string pattern: only the first occurrence of \<open>p\<close>
  is removed.
\<close>

fun replace_first_empty :: "jsstring \<Rightarrow> jsstring \<Rightarrow> jsstring" where
  "replace_first_empty [] p = []"
| "replace_first_empty (c # cs) p =
     (if startsWith (c # cs) p then drop (length p) (c # cs)
      else c # replace_first_empty cs p)"

text \<open>\<^verbatim>\<open>s.indexOf(c)\<close> for a one-unit pattern: the first position of \<open>c\<close>, or \<open>-1\<close>.\<close>

fun index_from :: "jschar \<Rightarrow> jsstring \<Rightarrow> nat \<Rightarrow> int" where
  "index_from c [] i = - 1"
| "index_from c (x # xs) i = (if x = c then int i else index_from c xs (Suc i))"

definition indexOf :: "jsstring \<Rightarrow> jschar \<Rightarrow> int" where
  "indexOf s c = index_from c s 0"

text \<open>
  \<^verbatim>\<open>s.substring(a, b)\<close> and \<^verbatim>\<open>s.substring(a)\<close> on non-negative arguments:
  both are clamped to the length, and the two-argument form swaps them when
  \<open>a > b\<close>.
\<close>

definition substring :: "jsstring \<Rightarrow> nat \<Rightarrow> nat \<Rightarrow> jsstring" where
  "substring s a b = take (max a b - min a b) (drop (min a b) s)"

definition substring_from :: "jsstring \<Rightarrow> nat \<Rightarrow> jsstring" where
  "substring_from s a = drop a s"

text \<open>\<^verbatim>\<open>s.toLowerCase()\<close> on the ASCII letters; other code units are kept.\<close>

definition lower_unit :: "jschar \<Rightarrow> jschar" where
  "lower_unit c = (if 0x41 \<le> c \<and> c \<le> 0x5A then c + 0x20 else c)"

definition toLowerCase :: "jsstring \<Rightarrow> jsstring" where
  "toLowerCase s = map lower_unit s"

definition dot :: jschar where
  "dot = 0x2E"

definition newlines2 :: jsstring where
  "newlines2 = [0x0A, 0x0A]"


definition slash :: jschar where
  "slash = 0x2F"

text \<open>
  A value that is a string or \<^verbatim>\<open>undefined\<close> (what \<^verbatim>\<open>attr()\<close> returns) is a
  \<open>jsstring option\<close>. It is truthy when it is a non-empty string; \<^verbatim>\<open>a || b\<close> is
  \<open>a\<close> when \<open>a\<close> is truthy and \<open>b\<close> otherwise.
\<close>

definition truthy :: "jsstring option \<Rightarrow> bool" where
  "truthy v = (case v of None \<Rightarrow> False | Some s \<Rightarrow> s \<noteq> [])"

definition js_or :: "jsstring option \<Rightarrow> jsstring option \<Rightarrow> jsstring option" where
  "js_or a b = (if truthy a then a else b)"

section \<open>The parsed page\<close>

text \<open>
  The program sees a page only through cheerio: \<^verbatim>\<open>load(html)\<close> gives the query
  function \<^verbatim>\<open>$\<close>, and the code reads texts and attributes of the selections. A
  \<open>document\<close> holds the answer of the page to each query the program makes; the
  field comments give the query.
\<close>

record item_element =
  h3_text :: jsstring                  \<comment> \<open>\<^verbatim>\<open>$element.find('h3').text()\<close>\<close>
  h2_text :: jsstring                  \<comment> \<open>\<^verbatim>\<open>$element.find('h2').text()\<close>\<close>
  title_class_text :: jsstring         \<comment> \<open>\<^verbatim>\<open>$element.find('.title').text()\<close>\<close>
  heading_class_text :: jsstring       \<comment> \<open>\<^verbatim>\<open>$element.find('.heading').text()\<close>\<close>
  find_a_href :: "jsstring option"     \<comment> \<open>\<^verbatim>\<open>$element.find('a').attr('href')\<close>\<close>
  is_a :: bool                         \<comment> \<open>\<^verbatim>\<open>$element.is('a')\<close>\<close>
  own_href :: "jsstring option"        \<comment> \<open>\<^verbatim>\<open>$element.attr('href')\<close>\<close>
  date_module_text :: jsstring         \<comment> \<open>\<^verbatim>\<open>$element.find('.DateUtility-module__date').text()\<close>\<close>
  date_class_text :: jsstring          \<comment> \<open>\<^verbatim>\<open>$element.find('.date').text()\<close>\<close>
  time_text :: jsstring                \<comment> \<open>\<^verbatim>\<open>$element.find('time').text()\<close>\<close>
  find_img_src :: "jsstring option"    \<comment> \<open>\<^verbatim>\<open>$element.find('img').attr('src')\<close>\<close>
  image_img_src :: "jsstring option"   \<comment> \<open>\<^verbatim>\<open>$element.find('.image img').attr('src')\<close>\<close>
  picture_srcset :: "jsstring option"  \<comment> \<open>\<^verbatim>\<open>$element.find('picture source').attr('srcset')\<close>\<close>
  p_text :: jsstring                   \<comment> \<open>\<^verbatim>\<open>$element.find('p').text()\<close>\<close>
  description_class_text :: jsstring   \<comment> \<open>\<^verbatim>\<open>$element.find('.description').text()\<close>\<close>
  summary_class_text :: jsstring       \<comment> \<open>\<^verbatim>\<open>$element.find('.summary').text()\<close>\<close>

record image_element =
  img_src :: "jsstring option"         \<comment> \<open>\<^verbatim>\<open>$img.attr('src')\<close>\<close>
  img_alt :: "jsstring option"         \<comment> \<open>\<^verbatim>\<open>$img.attr('alt')\<close>\<close>
  img_parent_text :: jsstring          \<comment> \<open>\<^verbatim>\<open>$img.parent().text()\<close>\<close>

record found_img =
  src_attr :: "jsstring option"        \<comment> \<open>\<^verbatim>\<open>img.attr('src')\<close>\<close>
  data_src_attr :: "jsstring option"   \<comment> \<open>\<^verbatim>\<open>img.attr('data-src')\<close>\<close>

record parent_element =
  first_img :: "found_img option"
    \<comment> \<open>\<^verbatim>\<open>parentElement.find('img').first()\<close>; \<open>None\<close> when its length is 0\<close>

record anchor_element =
  a_text :: jsstring                   \<comment> \<open>\<^verbatim>\<open>$el.text()\<close>\<close>
  a_href :: "jsstring option"          \<comment> \<open>\<^verbatim>\<open>$el.attr('href')\<close>\<close>
  a_parents :: "parent_element list"
    \<comment> \<open>\<^verbatim>\<open>$el.parent()\<close>, its parent, and so on up to the root; past the end
        the selection is empty\<close>

record document =
  query :: "jsstring \<Rightarrow> item_element list"  \<comment> \<open>\<^verbatim>\<open>$(selector)\<close>, in document order\<close>
  all_img :: "image_element list"              \<comment> \<open>\<^verbatim>\<open>$('img')\<close>\<close>
  all_a :: "anchor_element list"               \<comment> \<open>\<^verbatim>\<open>$('a')\<close>\<close>
  og_image :: "jsstring option"
    \<comment> \<open>\<^verbatim>\<open>$('meta[property="og:image"]').attr('content')\<close>\<close>
  twitter_image :: "jsstring option"
    \<comment> \<open>\<^verbatim>\<open>$('meta[name="twitter:image"]').attr('content')\<close>\<close>
  article_header_img_src :: "jsstring option"
    \<comment> \<open>\<^verbatim>\<open>$('.article-header img').attr('src')\<close>\<close>
  article_content_img_src :: "jsstring option"
    \<comment> \<open>\<^verbatim>\<open>$('.article-content img').first().attr('src')\<close>\<close>
  og_description :: "jsstring option"
    \<comment> \<open>\<^verbatim>\<open>$('meta[property="og:description"]').attr('content')\<close>\<close>
  meta_description :: "jsstring option"
    \<comment> \<open>\<^verbatim>\<open>$('meta[name="description"]').attr('content')\<close>\<close>
  article_content_p_text :: jsstring
    \<comment> \<open>\<^verbatim>\<open>$('.article-content p').first().text()\<close>\<close>

text \<open>\<^verbatim>\<open>$('img').first().attr('src')\<close>\<close>

definition first_img_src :: "document \<Rightarrow> jsstring option" where
  "first_img_src doc = (case all_img doc of [] \<Rightarrow> None | img # _ \<Rightarrow> img_src img)"

section \<open>The runtime\<close>

text \<open>
  What the program calls and does not define: the HTTP GET (\<^verbatim>\<open>axios.get\<close>, or
  its rate-limited wrapper), which returns the body or throws; cheerio's
  \<^verbatim>\<open>load\<close>; and the \<^verbatim>\<open>Date\<close> constructor on a string, whose time value is
  a number of milliseconds or \<^verbatim>\<open>NaN\<close> (\<open>None\<close>) for an invalid date.
\<close>

datatype js_error = NetworkError | ParseError

record runtime =
  axios_get :: "jsstring \<Rightarrow> js_error + jsstring"
  load :: "jsstring \<Rightarrow> js_error + document"
  date_parse :: "jsstring \<Rightarrow> int option"

section \<open>News items and article details\<close>

record news_item =
  title :: jsstring
  link :: jsstring
  date :: jsstring
  imageUrl :: "jsstring option"
  description :: jsstring

record article_details =
  details_imageUrl :: jsstring
  details_description :: jsstring

definition NINTENDO_NEWS_URL :: jsstring where
  "NINTENDO_NEWS_URL = lit ''https://www.nintendo.com/us/whatsnew/''"

definition nintendo_origin :: jsstring where
  "nintendo_origin = lit ''https://www.nintendo.com''"

definition placeholder_description :: jsstring where
  "placeholder_description = lit ''Nintendo news update''"

section \<open>fetchArticleDetails\<close>

definition default_details :: article_details where
  "default_details =
     \<lparr>details_imageUrl = [], details_description = placeholder_description\<rparr>"

text \<open>The body of the \<^verbatim>\<open>try\<close> block: \<open>Inl\<close> is a throw.\<close>

definition article_details_of :: "document \<Rightarrow> article_details" where
  "article_details_of doc =
     (let imageUrl0 =
            js_or (og_image doc)
              (js_or (twitter_image doc)
                (js_or (article_header_img_src doc)
                  (js_or (article_content_img_src doc) (first_img_src doc))));
          description0 =
            js_or (og_description doc)
              (js_or (meta_description doc)
                (js_or (Some (trim (article_content_p_text doc))) (Some [])))
      in \<lparr>details_imageUrl = (if truthy imageUrl0 then the imageUrl0 else []),
          details_description =
            (if truthy description0 then the description0 else placeholder_description)\<rparr>)"

definition fetchArticleDetails_try :: "runtime \<Rightarrow> jsstring \<Rightarrow> js_error + article_details" where
  "fetchArticleDetails_try rt url =
     (case axios_get rt url of
        Inl e \<Rightarrow> Inl e
      | Inr html \<Rightarrow>
          (case load rt html of
             Inl e \<Rightarrow> Inl e
           | Inr doc \<Rightarrow> Inr (article_details_of doc)))"

text \<open>The whole function: the \<^verbatim>\<open>catch\<close> returns the default.\<close>

definition fetchArticleDetails :: "runtime \<Rightarrow> jsstring \<Rightarrow> article_details" where
  "fetchArticleDetails rt url =
     (case fetchArticleDetails_try rt url of
        Inl e \<Rightarrow> default_details
      | Inr details \<Rightarrow> details)"

section \<open>fetchNintendoNews: the selector cascade\<close>

definition potentialSelectors :: "jsstring list" where
  "potentialSelectors =
     [lit ''.WhatIsNewPage-module__item'',
      lit ''.news-item'',
      lit ''.grid-item'',
      lit ''.nw-c-NewsItem'',
      lit ''article'',
      lit ''.card'',
      lit ''.link-block'',
      lit ''li.news-list-item'',
      lit ''.NintendoCard-module__main'',
      lit ''.COMPT-module__tile'',
      lit ''.WhatsNewHighlightModule-module__tile'']"

text \<open>
  The \<^verbatim>\<open>for (const selector of potentialSelectors)\<close> loop over the state
  \<open>(selectedSelector, itemsFound)\<close>; \<^verbatim>\<open>break\<close> ends it.
\<close>

fun selector_loop ::
  "document \<Rightarrow> jsstring list \<Rightarrow> jsstring \<times> nat \<Rightarrow> jsstring \<times> nat" where
  "selector_loop doc [] st = st"
| "selector_loop doc (selector # rest) (selectedSelector, itemsFound) =
     (let itemsFound' = length (query doc selector) in
      if itemsFound' > 0 then (selector, itemsFound')
      else selector_loop doc rest (selectedSelector, itemsFound'))"

definition selectedSelector :: "document \<Rightarrow> jsstring" where
  "selectedSelector doc = fst (selector_loop doc potentialSelectors ([], 0))"

section \<open>fetchNintendoNews: the images of the page\<close>

record page_image =
  src :: jsstring
  alt :: jsstring

definition news_word :: jsstring where
  "news_word = lit ''news''"

fun each_img :: "image_element list \<Rightarrow> page_image list \<Rightarrow> page_image list" where
  "each_img [] allImages = allImages"
| "each_img (img # imgs) allImages =
     (let src0 = img_src img;
          alt0 = (if truthy (img_alt img) then the (img_alt img) else [])
      in each_img imgs
           (if truthy src0 \<and>
               (js_includes (toLowerCase alt0) news_word \<or>
                js_includes (toLowerCase (img_parent_text img)) news_word \<or>
                js_includes (toLowerCase (the src0)) news_word)
            then allImages @
                   [\<lparr>src = (if startsWith (the src0) [slash] then nintendo_origin @ the src0
                            else the src0),
                     alt = alt0\<rparr>]
            else allImages))"

section \<open>fetchNintendoNews: the fallback over the anchors\<close>

definition read_more :: jsstring where
  "read_more = lit ''Read more''"

definition is_digit :: "jschar \<Rightarrow> bool" where
  "is_digit c \<longleftrightarrow> 0x30 \<le> c \<and> c \<le> 0x39"

text \<open>
  \<^verbatim>\<open>rawTitle.match(/^(\d{2}\/\d{2}\/\d{2})/)\<close>: the matched text
  (\<^verbatim>\<open>dateMatch[0]\<close>), or \<open>None\<close> for \<^verbatim>\<open>null\<close>.
\<close>

fun match_date :: "jsstring \<Rightarrow> jsstring option" where
  "match_date (m1 # m2 # s1 # d1 # d2 # s2 # y1 # y2 # rest) =
     (if is_digit m1 \<and> is_digit m2 \<and> s1 = slash \<and> is_digit d1 \<and> is_digit d2 \<and>
         s2 = slash \<and> is_digit y1 \<and> is_digit y2
      then Some [m1, m2, s1, d1, d2, s2, y1, y2] else None)"
| "match_date _ = None"

text \<open>
  The loop that looks for an image in up to three parents:
  \<^verbatim>\<open>
  for (let i = 0; i < 3 && !imageUrl; i++) {
      if (parentElement.length) {
          const img = parentElement.find('img').first();
          if (img.length) { imageUrl = img.attr('src') || img.attr('data-src'); }
          parentElement = parentElement.parent();
      }
  }
  \<close>
\<close>

function parent_image_loop ::
  "nat \<Rightarrow> parent_element list \<Rightarrow> jsstring option \<Rightarrow> jsstring option" where
  "parent_image_loop i parents imageUrl0 =
     (if i < 3 \<and> \<not> truthy imageUrl0 then
        (case parents of
           [] \<Rightarrow> parent_image_loop (Suc i) [] imageUrl0
         | parentElement # up \<Rightarrow>
             parent_image_loop (Suc i) up
               (case first_img parentElement of
                  None \<Rightarrow> imageUrl0
                | Some img \<Rightarrow> js_or (src_attr img) (data_src_attr img)))
      else imageUrl0)"
  by pat_completeness auto
termination
  by (relation "measure (\<lambda>(i, parents, imageUrl0). 3 - i)") auto

text \<open>The predicate of \<^verbatim>\<open>allImages.find\<close>.\<close>

definition image_matches :: "jsstring \<Rightarrow> page_image \<Rightarrow> bool" where
  "image_matches title0 img \<longleftrightarrow>
     (alt img \<noteq> [] \<and> js_includes title0 (alt img)) \<or>
     (alt img \<noteq> [] \<and> js_includes (alt img) (substring title0 0 20))"

definition full_link :: "jsstring \<Rightarrow> jsstring" where
  "full_link link0 =
     (if link0 \<noteq> [] \<and> \<not> js_includes link0 (lit ''://'') then
        (if startsWith link0 [slash] then nintendo_origin @ link0
         else nintendo_origin @ [slash] @ link0)
      else link0)"

text \<open>
  The body of \<^verbatim>\<open>$('a').each\<close> for one anchor: the item it pushes, or \<open>None\<close>
  when the anchor is skipped.
\<close>

definition anchor_item :: "page_image list \<Rightarrow> anchor_element \<Rightarrow> news_item option" where
  "anchor_item allImages el =
     (let text0 = trim (a_text el);
          link0 = a_href el
      in if text0 \<noteq> [] \<and> truthy link0 \<and> js_includes text0 read_more then
           (let rawTitle = trim (replace_first_empty text0 read_more);
                dateMatch = match_date rawTitle;
                date0 = (case dateMatch of None \<Rightarrow> [] | Some m \<Rightarrow> m);
                title0 = (case dateMatch of
                            None \<Rightarrow> rawTitle
                          | Some m \<Rightarrow> trim (substring_from rawTitle (length date0)));
                imageUrl0 = parent_image_loop 0 (a_parents el) (Some []);
                imageUrl1 =
                  (if \<not> truthy imageUrl0 \<and> length allImages > 0 then
                     (case find (image_matches title0) allImages of
                        None \<Rightarrow> imageUrl0
                      | Some bestImageMatch \<Rightarrow> Some (src bestImageMatch))
                   else imageUrl0)
            in Some \<lparr>title = title0, link = full_link (the link0), date = date0,
                     imageUrl = imageUrl1, description = placeholder_description\<rparr>)
         else None)"

fun each_anchor ::
  "page_image list \<Rightarrow> anchor_element list \<Rightarrow> news_item list \<Rightarrow> news_item list" where
  "each_anchor allImages [] newsLinks = newsLinks"
| "each_anchor allImages (el # els) newsLinks =
     each_anchor allImages els
       (case anchor_item allImages el of
          None \<Rightarrow> newsLinks
        | Some item \<Rightarrow> newsLinks @ [item])"

text \<open>
  The comparison function handed to \<^verbatim>\<open>sort\<close>; \<open>None\<close> is \<^verbatim>\<open>NaN\<close>, the
  difference of two dates one of which is invalid.
  \<^verbatim>\<open>
  (a, b) => {
      if (!a.date) return 1;
      if (!b.date) return -1;
      return new Date(b.date) - new Date(a.date);
  }
  \<close>
\<close>

definition compare_news :: "(jsstring \<Rightarrow> int option) \<Rightarrow> news_item \<Rightarrow> news_item \<Rightarrow> int option" where
  "compare_news parse a b =
     (if date a = [] then Some 1
      else if date b = [] then Some (- 1)
      else (case parse (date b) of
              None \<Rightarrow> None
            | Some tb \<Rightarrow> (case parse (date a) of None \<Rightarrow> None | Some ta \<Rightarrow> Some (tb - ta))))"

text \<open>
  \<^verbatim>\<open>Array.prototype.sort(comparefn)\<close> is not code of the program. It is modelled
  as Node sorts an array of fewer than 64 elements. A \<^verbatim>\<open>NaN\<close> result of
  \<open>comparefn\<close> counts as \<open>+0\<close>, and the sort only asks whether a result is
  negative. An array of fewer than two elements is left as it is. Otherwise the sort
  first finds the run at the front of the array: with the first two elements \<open>a\<close>
  and \<open>b\<close>, the run is descending when \<open>comparefn b a\<close> is negative; it goes on
  as long as each next element, compared with the one before it, gives a negative
  result (descending run) or a result that is not negative (ascending run); a
  descending run is reversed. Then each remaining element in turn is put into the
  sorted front part at the place a binary search finds: with \<open>left\<close> and \<open>right\<close>
  the bounds of the search and \<open>mid\<close> between them, a negative
  \<open>comparefn pivot (a[mid])\<close> moves \<open>right\<close> to \<open>mid\<close>, any other result moves
  \<open>left\<close> to \<open>mid + 1\<close>.

  For 64 or more elements Node cuts the array into runs of 32 to 64 elements, sorts
  each in this way and merges the runs; the model treats such an array like a shorter
  one. Both are stable sorts, so the two agree whenever the negative results of
  \<open>comparefn\<close> come from an ordering of the elements, as they do for
  \<open>compare_news\<close> when no result is \<^verbatim>\<open>NaN\<close>.
\<close>

definition sorts_before :: "('a \<Rightarrow> 'a \<Rightarrow> int option) \<Rightarrow> 'a \<Rightarrow> 'a \<Rightarrow> bool" where
  "sorts_before comparefn x y = (case comparefn x y of None \<Rightarrow> False | Some v \<Rightarrow> v < 0)"

text \<open>
  The rest of the run after its first two elements: \<open>previous\<close> is the last
  element of the run so far, and the result is the elements that continue the run and
  those that follow it.
\<close>

fun run_rest ::
  "('a \<Rightarrow> 'a \<Rightarrow> int option) \<Rightarrow> bool \<Rightarrow> 'a \<Rightarrow> 'a list \<Rightarrow> 'a list \<times> 'a list" where
  "run_rest comparefn isDescending previous [] = ([], [])"
| "run_rest comparefn isDescending previous (x # xs) =
     (if sorts_before comparefn x previous = isDescending then
        (case run_rest comparefn isDescending x xs of (run, rest) \<Rightarrow> (x # run, rest))
      else ([], x # xs))"

text \<open>The run at the front, made ascending, and the elements after it.\<close>

fun count_and_make_run :: "('a \<Rightarrow> 'a \<Rightarrow> int option) \<Rightarrow> 'a list \<Rightarrow> 'a list \<times> 'a list" where
  "count_and_make_run comparefn (a # b # xs) =
     (let isDescending = sorts_before comparefn b a in
      case run_rest comparefn isDescending b xs of
        (run, rest) \<Rightarrow>
          ((if isDescending then rev (a # b # run) else a # b # run), rest))"
| "count_and_make_run comparefn xs = (xs, [])"

function binary_search ::
  "('a \<Rightarrow> 'a \<Rightarrow> int option) \<Rightarrow> 'a \<Rightarrow> 'a list \<Rightarrow> nat \<Rightarrow> nat \<Rightarrow> nat" where
  "binary_search comparefn pivot placed left right =
     (if left < right then
        (let mid = left + (right - left) div 2 in
         if sorts_before comparefn pivot (placed ! mid)
         then binary_search comparefn pivot placed left mid
         else binary_search comparefn pivot placed (mid + 1) right)
      else left)"
  by pat_completeness auto
termination
  by (relation "measure (\<lambda>(comparefn, pivot, placed, left, right). right - left)") auto

declare binary_search.simps [simp del]

definition binary_insert :: "('a \<Rightarrow> 'a \<Rightarrow> int option) \<Rightarrow> 'a list \<Rightarrow> 'a \<Rightarrow> 'a list" where
  "binary_insert comparefn placed pivot =
     (let left = binary_search comparefn pivot placed 0 (length placed)
      in take left placed @ pivot # drop left placed)"

definition array_sort :: "('a \<Rightarrow> 'a \<Rightarrow> int option) \<Rightarrow> 'a list \<Rightarrow> 'a list" where
  "array_sort comparefn xs =
     (if length xs < 2 then xs
      else (case count_and_make_run comparefn xs of
              (run, rest) \<Rightarrow> foldl (binary_insert comparefn) run rest))"

text \<open>The fallback branch: collect, sort, \<^verbatim>\<open>slice(0, limit)\<close>.\<close>

definition fallback_news ::
  "(jsstring \<Rightarrow> int option) \<Rightarrow> page_image list \<Rightarrow> anchor_element list \<Rightarrow> nat \<Rightarrow> news_item list" where
  "fallback_news parse allImages anchors limit =
     take limit (array_sort (compare_news parse) (each_anchor allImages anchors []))"

section \<open>fetchNintendoNews: the items of the working selector\<close>

definition node_title :: "item_element \<Rightarrow> jsstring" where
  "node_title el =
     (let t1 = trim (h3_text el);
          t2 = (if t1 = [] then trim (h2_text el) else t1);
          t3 = (if t2 = [] then trim (title_class_text el) else t2)
      in if t3 = [] then trim (heading_class_text el) else t3)"

definition node_link :: "item_element \<Rightarrow> jsstring option" where
  "node_link el =
     (let link0 = find_a_href el;
          link1 = (if \<not> truthy link0 \<and> is_a el then own_href el else link0)
      in if truthy link1 \<and> startsWith (the link1) [slash]
         then Some (nintendo_origin @ the link1) else link1)"

definition node_date :: "item_element \<Rightarrow> jsstring" where
  "node_date el =
     (let d1 = trim (date_module_text el);
          d2 = (if d1 = [] then trim (date_class_text el) else d1)
      in if d2 = [] then trim (time_text el) else d2)"

definition node_image :: "item_element \<Rightarrow> jsstring option" where
  "node_image el =
     (let i1 = find_img_src el;
          i2 = (if \<not> truthy i1 then image_img_src el else i1);
          i3 = (if \<not> truthy i2 then picture_srcset el else i2)
      in if truthy i3 \<and> \<not> startsWith (the i3) (lit ''http'')
         then Some (nintendo_origin @ the i3) else i3)"

definition node_description :: "item_element \<Rightarrow> jsstring" where
  "node_description el =
     (let p1 = trim (p_text el);
          p2 = (if p1 = [] then trim (description_class_text el) else p1)
      in if p2 = [] then trim (summary_class_text el) else p2)"

text \<open>
  The body of \<^verbatim>\<open>$(selectedSelector).each\<close> below its index test: the item
  pushed for one element, or \<open>None\<close> when nothing is pushed.
\<close>

definition node_item :: "item_element \<Rightarrow> news_item option" where
  "node_item el =
     (let title0 = node_title el;
          fullLink = node_link el;
          description0 = node_description el
      in if title0 \<noteq> [] \<or> description0 \<noteq> [] then
           Some \<lparr>title = (if title0 \<noteq> [] then title0 else lit ''Nintendo News Update''),
                 link = (if truthy fullLink then the fullLink else NINTENDO_NEWS_URL),
                 date = node_date el,
                 imageUrl = node_image el,
                 description = description0\<rparr>
         else None)"

text \<open>
  \<^verbatim>\<open>$(selectedSelector).each((index, element) => { if (index >= limit) return; ... })\<close>:
  the callback runs for every element, \<open>index\<close> counts the elements, and
  \<^verbatim>\<open>return\<close> only ends the callback for that element.
\<close>

fun each_item :: "nat \<Rightarrow> nat \<Rightarrow> item_element list \<Rightarrow> news_item list \<Rightarrow> news_item list" where
  "each_item limit index [] newsItems = newsItems"
| "each_item limit index (el # els) newsItems =
     each_item limit (Suc index) els
       (if index \<ge> limit then newsItems
        else (case node_item el of
                None \<Rightarrow> newsItems
              | Some item \<Rightarrow> newsItems @ [item]))"

section \<open>fetchNintendoNews\<close>

text \<open>
  \<open>limit\<close> is a count: the handler passes 1, 3 or 5. The body of the \<^verbatim>\<open>try\<close>
  block after the page is loaded:
\<close>

definition extract_news :: "(jsstring \<Rightarrow> int option) \<Rightarrow> document \<Rightarrow> nat \<Rightarrow> news_item list" where
  "extract_news parse doc limit =
     (let selected = selectedSelector doc;
          allImages = each_img (all_img doc) []
      in if selected = [] then fallback_news parse allImages (all_a doc) limit
         else each_item limit 0 (query doc selected) [])"

definition fetchNintendoNews_try :: "runtime \<Rightarrow> nat \<Rightarrow> js_error + news_item list" where
  "fetchNintendoNews_try rt limit =
     (case axios_get rt NINTENDO_NEWS_URL of
        Inl e \<Rightarrow> Inl e
      | Inr html \<Rightarrow>
          (case load rt html of
             Inl e \<Rightarrow> Inl e
           | Inr doc \<Rightarrow> Inr (extract_news (date_parse rt) doc limit)))"

text \<open>The whole function: the \<^verbatim>\<open>catch\<close> returns \<^verbatim>\<open>[]\<close>.\<close>

definition fetchNintendoNews :: "runtime \<Rightarrow> nat \<Rightarrow> news_item list" where
  "fetchNintendoNews rt limit =
     (case fetchNintendoNews_try rt limit of
        Inl e \<Rightarrow> []
      | Inr newsItems \<Rightarrow> newsItems)"

section \<open>The command handler: enrichment of one item\<close>

text \<open>
  \<^verbatim>\<open>
  if ((!news.imageUrl || news.description === 'Nintendo news update') && news.link) {
      const articleDetails = await fetchArticleDetails(news.link);
      if (!news.imageUrl && articleDetails.imageUrl) news.imageUrl = articleDetails.imageUrl;
      if (news.description === 'Nintendo news update' &&
          articleDetails.description !== 'Nintendo news update')
          news.description = articleDetails.description;
  }
  \<close>
\<close>

definition enrich :: "runtime \<Rightarrow> news_item \<Rightarrow> news_item" where
  "enrich rt news =
     (if (\<not> truthy (imageUrl news) \<or> description news = placeholder_description) \<and>
         link news \<noteq> [] then
        (let articleDetails = fetchArticleDetails rt (link news);
             news1 = (if \<not> truthy (imageUrl news) \<and> details_imageUrl articleDetails \<noteq> []
                      then news\<lparr>imageUrl := Some (details_imageUrl articleDetails)\<rparr>
                      else news)
         in if description news1 = placeholder_description \<and>
               details_description articleDetails \<noteq> placeholder_description
            then news1\<lparr>description := details_description articleDetails\<rparr>
            else news1)
      else news)"

section \<open>The title-length guard of the command handler\<close>

text \<open>
  From the \<^verbatim>\<open>nintendonews\<close> handler:
  \<^verbatim>\<open>
  let title = news.title;
  let description = news.description;
  if (title && title.length > 250) {
      const breakPoint = title.indexOf('.');
      if (breakPoint > 10 && breakPoint < 240) {
          description = title.substring(breakPoint + 1).trim() + (description ? '\n\n' + description : '');
          title = title.substring(0, breakPoint + 1).trim();
      } else {
          description = title.substring(250) + (description ? '...\n\n' + description : '...');
          title = title.substring(0, 250) + '...';
      }
  }
  \<close>
  The result is the pair (title, description) handed to the embed.
\<close>

definition title_guard :: "jsstring \<Rightarrow> jsstring \<Rightarrow> jsstring \<times> jsstring" where
  "title_guard ttl descr =
     (if ttl \<noteq> [] \<and> length ttl > 250 then
        (let breakPoint = indexOf ttl dot in
         if breakPoint > 10 \<and> breakPoint < 240 then
           (trim (substring ttl 0 (nat (breakPoint + 1))),
            trim (substring_from ttl (nat (breakPoint + 1)))
              @ (if descr \<noteq> [] then newlines2 @ descr else []))
         else
           (substring ttl 0 250 @ lit ''...'',
            substring_from ttl 250
              @ (if descr \<noteq> [] then lit ''...'' @ newlines2 @ descr
                 else lit ''...'')))
      else (ttl, descr))"

text \<open>
  A 260-unit title with periods at positions 5 and 120, the rest the letter \<open>a\<close>.
\<close>

definition two_period_title :: jsstring where
  "two_period_title =
     replicate 5 0x61 @ [dot] @ replicate 114 0x61 @ [dot] @ replicate 139 0x61"

text \<open>A 260-unit title whose only period is at position 120, and one with no period.\<close>

definition one_period_title :: jsstring where
  "one_period_title = replicate 120 0x61 @ [dot] @ replicate 139 0x61"

definition no_period_title :: jsstring where
  "no_period_title = replicate 260 0x61"

section \<open>Example pages\<close>

definition blank_element :: item_element where
  "blank_element =
     \<lparr>h3_text = [], h2_text = [], title_class_text = [], heading_class_text = [],
      find_a_href = None, is_a = False, own_href = None,
      date_module_text = [], date_class_text = [], time_text = [],
      find_img_src = None, image_img_src = None, picture_srcset = None,
      p_text = [], description_class_text = [], summary_class_text = []\<rparr>"

definition headline :: "jsstring \<Rightarrow> item_element" where
  "headline t = blank_element\<lparr>h3_text := t\<rparr>"

definition blank_document :: document where
  "blank_document =
     \<lparr>query = (\<lambda>selector. []), all_img = [], all_a = [],
      og_image = None, twitter_image = None, article_header_img_src = None,
      article_content_img_src = None, og_description = None, meta_description = None,
      article_content_p_text = []\<rparr>"

text \<open>A page with one \<^verbatim>\<open>article\<close> element and two \<^verbatim>\<open>.card\<close> elements.\<close>

definition article_document :: document where
  "article_document =
     blank_document\<lparr>query := (\<lambda>selector.
        if selector = lit ''article'' then [headline (lit ''Direct'')]
        else if selector = lit ''.card'' then [headline (lit ''One''), headline (lit ''Two'')]
        else [])\<rparr>"

text \<open>Three matched elements, the first with no title and no description.\<close>

definition three_elements :: "item_element list" where
  "three_elements = [blank_element, headline (lit ''A''), headline (lit ''B'')]"

text \<open>
  An instance of the runtime's \<^verbatim>\<open>Date\<close> for the examples, on the only non-empty
  strings the program gives it, \<^verbatim>\<open>NN/NN/NN\<close>. It reads the three numbers as Node's
  parser does for this form: as month/day/year, or as year/month/day when the first
  number cannot be a day (it is not from 1 to 31); the date is invalid unless the
  month is from 1 to 12 and the day from 1 to 31; the years 00 to 49 are 2000 to 2049
  and 50 to 99 are 1950 to 1999. The time value is that of the start of the day, in
  milliseconds, with the local time zone taken as UTC.
\<close>

definition digit_value :: "jschar \<Rightarrow> int" where
  "digit_value c = uint c - 48"

definition is_leap :: "int \<Rightarrow> bool" where
  "is_leap y = (if y mod 4 = 0 then (if y mod 100 = 0 then y mod 400 = 0 else True) else False)"

definition day_from_year :: "int \<Rightarrow> int" where
  "day_from_year y =
     365 * (y - 1970) + (y - 1969) div 4 - (y - 1901) div 100 + (y - 1601) div 400"

definition days_before_month :: "int \<Rightarrow> int \<Rightarrow> int" where
  "days_before_month y m =
     [0, 31, 59, 90, 120, 151, 181, 212, 243, 273, 304, 334] ! nat (m - 1)
       + (if is_leap y \<and> 2 < m then 1 else 0)"

fun node_date_parse :: "jsstring \<Rightarrow> int option" where
  "node_date_parse [a1, a2, s1, b1, b2, s2, c1, c2] =
     (if is_digit a1 \<and> is_digit a2 \<and> s1 = slash \<and> is_digit b1 \<and> is_digit b2 \<and>
         s2 = slash \<and> is_digit c1 \<and> is_digit c2 then
        (let n1 = 10 * digit_value a1 + digit_value a2;
             n2 = 10 * digit_value b1 + digit_value b2;
             n3 = 10 * digit_value c1 + digit_value c2;
             ymd = \<not> (1 \<le> n1 \<and> n1 \<le> 31);
             yy = (if ymd then n1 else n3);
             month = (if ymd then n2 else n1);
             day = (if ymd then n3 else n2);
             year = (if yy < 50 then 2000 + yy else 1900 + yy)
         in if 1 \<le> month \<and> month \<le> 12 \<and> 1 \<le> day \<and> day \<le> 31
            then Some (86400000 * (day_from_year year + days_before_month year month + day - 1))
            else None)
      else None)"
| "node_date_parse _ = None"

text \<open>A runtime that serves one page, and one whose requests fail.\<close>

definition page_runtime :: "document \<Rightarrow> runtime" where
  "page_runtime doc =
     \<lparr>axios_get = (\<lambda>url. Inr (lit ''<html></html>'')), load = (\<lambda>html. Inr doc),
      date_parse = node_date_parse\<rparr>"

definition offline_runtime :: runtime where
  "offline_runtime =
     \<lparr>axios_get = (\<lambda>url. Inl NetworkError), load = (\<lambda>html. Inl ParseError),
      date_parse = node_date_parse\<rparr>"

text \<open>A page whose \<^verbatim>\<open>article\<close> elements are \<open>three_elements\<close>.\<close>

definition three_article_document :: document where
  "three_article_document =
     blank_document\<lparr>query := (\<lambda>selector.
        if selector = lit ''article'' then three_elements else [])\<rparr>"

text \<open>
  A page with one \<^verbatim>\<open>article\<close> whose anchor has the relative target
  \<^verbatim>\<open>news/article-1\<close>.
\<close>

definition relative_link_document :: document where
  "relative_link_document =
     blank_document\<lparr>query := (\<lambda>selector.
        if selector = lit ''article''
        then [(headline (lit ''Launch day''))\<lparr>find_a_href := Some (lit ''news/article-1'')\<rparr>]
        else [])\<rparr>"

text \<open>A runtime whose request succeeds and whose page cannot be loaded.\<close>

definition unparsable_runtime :: runtime where
  "unparsable_runtime =
     \<lparr>axios_get = (\<lambda>url. Inr (lit ''<html></html>'')), load = (\<lambda>html. Inl ParseError),
      date_parse = node_date_parse\<rparr>"

text \<open>An anchor with a text and a target, and no parent that holds an image.\<close>

definition plain_anchor :: "jsstring \<Rightarrow> jsstring \<Rightarrow> anchor_element" where
  "plain_anchor txt href = \<lparr>a_text = txt, a_href = Some href, a_parents = []\<rparr>"

definition anchor_document :: "anchor_element list \<Rightarrow> document" where
  "anchor_document anchors = blank_document\<lparr>all_a := anchors\<rparr>"

text \<open>
  A page that matches no selector, with three anchors: one with no date, then one dated
  02/15/24, then one dated 03/01/24.
\<close>

definition dated_anchors :: "anchor_element list" where
  "dated_anchors =
     [plain_anchor (lit ''Community night Read more'') (lit ''/us/whatsnew/community''),
      plain_anchor (lit ''02/15/24Patch notes Read more'') (lit ''news/patch''),
      plain_anchor (lit ''03/01/24New trailer Read more'')
        (lit ''https://www.nintendo.com/us/whatsnew/trailer'')]"

text \<open>Two anchors across a change of year.\<close>

definition year_end_anchors :: "anchor_element list" where
  "year_end_anchors =
     [plain_anchor (lit ''12/31/23Year in review Read more'') (lit ''/us/whatsnew/review''),
      plain_anchor (lit ''01/05/24New year sale Read more'') (lit ''/us/whatsnew/sale'')]"

text \<open>Three anchors, the second with a token of the date form that is no date.\<close>

definition invalid_date_anchors :: "anchor_element list" where
  "invalid_date_anchors =
     [plain_anchor (lit ''02/15/24Patch notes Read more'') (lit ''/us/whatsnew/patch''),
      plain_anchor (lit ''99/99/99Coming soon Read more'') (lit ''/us/whatsnew/soon''),
      plain_anchor (lit ''03/01/24New trailer Read more'') (lit ''/us/whatsnew/trailer'')]"

text \<open>
  The order in which a list sorted by date, newest first and undated items last, may
  hold two items: \<open>a\<close> may stand before \<open>b\<close> when \<open>b\<close> has no date, or both have
  one and the time value of \<open>a\<close> is not less than that of \<open>b\<close>.
\<close>

definition newest_first :: "(jsstring \<Rightarrow> int option) \<Rightarrow> news_item \<Rightarrow> news_item \<Rightarrow> bool" where
  "newest_first parse a b \<longleftrightarrow>
     date b = [] \<or>
     (date a \<noteq> [] \<and>
      (case parse (date a) of
         None \<Rightarrow> False
       | Some ta \<Rightarrow> (case parse (date b) of None \<Rightarrow> False | Some tb \<Rightarrow> tb \<le> ta)))"

text \<open>An article page with an Open Graph description.\<close>

definition described_document :: document where
  "described_document = blank_document\<lparr>og_description := Some (lit ''A new trailer is out.'')\<rparr>"

text \<open>Three anchors, the second with a date written day first.\<close>

definition day_first_anchors :: "anchor_element list" where
  "day_first_anchors =
     [plain_anchor (lit ''02/15/24Patch notes Read more'') (lit ''/us/whatsnew/patch''),
      plain_anchor (lit ''25/12/24Holiday sale Read more'') (lit ''/us/whatsnew/sale''),
      plain_anchor (lit ''03/01/24New trailer Read more'') (lit ''/us/whatsnew/trailer'')]"

text \<open>Four anchors: a descending run of two, a token that is no date, and a fourth.\<close>

definition four_anchors :: "anchor_element list" where
  "four_anchors =
     [plain_anchor (lit ''01/10/24One Read more'') (lit ''/us/whatsnew/one''),
      plain_anchor (lit ''03/01/24Two Read more'') (lit ''/us/whatsnew/two''),
      plain_anchor (lit ''99/99/99Three Read more'') (lit ''/us/whatsnew/three''),
      plain_anchor (lit ''01/20/24Four Read more'') (lit ''/us/whatsnew/four'')]"

section \<open>Facts about the string functions\<close>

lemma index_from_absent: "c \<notin> set s \<Longrightarrow> index_from c s i = - 1"
  by (induction s arbitrary: i) auto

lemma index_from_first:
  "n < length s \<Longrightarrow> s ! n = c \<Longrightarrow> (\<forall>j<n. s ! j \<noteq> c) \<Longrightarrow> index_from c s i = int (i + n)"
proof (induction s arbitrary: i n)
  case Nil
  then show ?case by simp
next
  case (Cons x xs)
  show ?case
  proof (cases n)
    case 0
    with Cons.prems show ?thesis by simp
  next
    case (Suc m)
    from Cons.prems Suc have "x \<noteq> c" by auto
    moreover from Cons.prems Suc have "m < length xs" "xs ! m = c" "\<forall>j<m. xs ! j \<noteq> c"
      by auto
    ultimately show ?thesis
      using Cons.IH [of m "Suc i"] Suc by simp
  qed
qed

lemma indexOf_absent: "c \<notin> set s \<Longrightarrow> indexOf s c = - 1"
  by (simp add: indexOf_def index_from_absent)

lemma indexOf_first:
  "n < length s \<Longrightarrow> s ! n = c \<Longrightarrow> (\<forall>j<n. s ! j \<noteq> c) \<Longrightarrow> indexOf s c = int n"
  using index_from_first [of n s c 0] by (simp add: indexOf_def)

lemma trim_no_edge_ws:
  assumes "s \<noteq> []" "\<not> js_ws (hd s)" "\<not> js_ws (last s)"
  shows "trim s = s"
proof -
  from assms have "dropWhile js_ws s = s"
    by (cases s) auto
  moreover from assms have "dropWhile js_ws (rev s) = rev s"
    by (cases "rev s") (auto simp: hd_rev [symmetric])
  ultimately show ?thesis
    by (simp add: trim_def)
qed

lemma dot_not_ws: "\<not> js_ws dot"
  by (simp add: js_ws_def dot_def)

section \<open>Properties of the title-length guard\<close>

lemma title_guard_short: "length t \<le> 250 \<Longrightarrow> title_guard t d = (t, d)"
  by (simp add: title_guard_def)

lemma title_guard_split:
  assumes "250 < length t" "bp < length t" "t ! bp = dot" "\<forall>j<bp. t ! j \<noteq> dot"
    "10 < bp" "bp < 240"
  shows "title_guard t d =
    (trim (take (Suc bp) t),
     trim (drop (Suc bp) t) @ (if d = [] then [] else newlines2 @ d))"
proof -
  from assms have "indexOf t dot = int bp" by (simp add: indexOf_first)
  with assms show ?thesis
    by (auto simp add: title_guard_def substring_def substring_from_def Let_def nat_add_distrib)
qed

lemma title_guard_split_length:
  assumes "250 < length t" "bp < length t" "t ! bp = dot" "\<forall>j<bp. t ! j \<noteq> dot"
    "10 < bp" "bp < 240" "\<not> js_ws (hd t)"
  shows "fst (title_guard t d) = take (Suc bp) t \<and> length (fst (title_guard t d)) = bp + 1"
proof -
  let ?p = "take (Suc bp) t"
  from assms have ne: "?p \<noteq> []" by auto
  from assms have "hd ?p = hd t" by (cases t) auto
  moreover from assms have "last ?p = dot"
    by (simp add: take_Suc_conv_app_nth)
  ultimately have "trim ?p = ?p"
    using ne assms(7) dot_not_ws by (intro trim_no_edge_ws) auto
  with title_guard_split [OF assms(1-6), of d] assms(2) show ?thesis
    by simp
qed

lemma title_guard_hard:
  assumes "250 < length t" "indexOf t dot \<le> 10 \<or> 240 \<le> indexOf t dot"
  shows "title_guard t d =
    (take 250 t @ lit ''...'',
     drop 250 t @ lit ''...'' @ (if d = [] then [] else newlines2 @ d))"
  using assms
  by (auto simp add: title_guard_def substring_def substring_from_def Let_def)

lemma two_period_index: "indexOf two_period_title dot = 5"
proof -
  have "indexOf two_period_title dot = int 5"
  proof (rule indexOf_first)
    show "5 < length two_period_title" by (simp add: two_period_title_def)
    show "two_period_title ! 5 = dot" by (simp add: two_period_title_def nth_append)
    show "\<forall>j<5. two_period_title ! j \<noteq> dot"
      by (simp add: two_period_title_def nth_append dot_def)
  qed
  then show ?thesis by simp
qed


text \<open>
  C3, amended: a title of at most 250 units is unchanged. For a longer title,
  if its first period is at a position \<open>bp\<close> strictly between 10 and 240, the
  title becomes its first \<open>bp + 1\<close> units, trimmed, and the trimmed remainder is
  put in front of the description (separated by two newlines when the description is
  not empty); for a title that does not start with white space that is exactly the
  first \<open>bp + 1\<close> units, so a period at 120 gives length 121. If the title has no
  period, or its first period is at a position \<open>\<le> 10\<close> or \<open>\<ge> 240\<close>, the title
  becomes its first 250 units followed by \<open>...\<close> (253 units) and the remainder,
  followed by \<open>...\<close>, goes in front of the description.
\<close>

theorem title_guard_first_period:
  "(length t \<le> 250 \<longrightarrow> title_guard t d = (t, d)) \<and>
   (250 < length t \<and> bp < length t \<and> t ! bp = dot \<and> (\<forall>j<bp. t ! j \<noteq> dot) \<and>
    10 < bp \<and> bp < 240 \<longrightarrow>
      title_guard t d =
        (trim (take (Suc bp) t),
         trim (drop (Suc bp) t) @ (if d = [] then [] else newlines2 @ d)) \<and>
      (\<not> js_ws (hd t) \<longrightarrow>
         fst (title_guard t d) = take (Suc bp) t \<and>
         length (fst (title_guard t d)) = bp + 1)) \<and>
   (250 < length t \<and>
    (dot \<notin> set t \<or>
     (\<exists>k<length t. t ! k = dot \<and> (\<forall>j<k. t ! j \<noteq> dot) \<and> (k \<le> 10 \<or> 240 \<le> k))) \<longrightarrow>
      title_guard t d =
        (take 250 t @ lit ''...'',
         drop 250 t @ lit ''...'' @ (if d = [] then [] else newlines2 @ d)) \<and>
      length (fst (title_guard t d)) = 253)"
proof (intro conjI impI)
  assume "length t \<le> 250"
  then show "title_guard t d = (t, d)" by (rule title_guard_short)
next
  assume "250 < length t \<and> bp < length t \<and> t ! bp = dot \<and> (\<forall>j<bp. t ! j \<noteq> dot) \<and>
    10 < bp \<and> bp < 240"
  then show "title_guard t d =
      (trim (take (Suc bp) t), trim (drop (Suc bp) t) @ (if d = [] then [] else newlines2 @ d))"
    by (intro title_guard_split) auto
next
  assume "250 < length t \<and> bp < length t \<and> t ! bp = dot \<and> (\<forall>j<bp. t ! j \<noteq> dot) \<and>
    10 < bp \<and> bp < 240"
    and "\<not> js_ws (hd t)"
  then have both:
    "fst (title_guard t d) = take (Suc bp) t \<and> length (fst (title_guard t d)) = bp + 1"
    by (intro title_guard_split_length) auto
  from both show "fst (title_guard t d) = take (Suc bp) t"
    by (rule conjunct1)
  from both show "length (fst (title_guard t d)) = bp + 1"
    by (rule conjunct2)
next
  assume h: "250 < length t \<and>
    (dot \<notin> set t \<or>
     (\<exists>k<length t. t ! k = dot \<and> (\<forall>j<k. t ! j \<noteq> dot) \<and> (k \<le> 10 \<or> 240 \<le> k)))"
  then have long: "250 < length t"
    and far: "dot \<notin> set t \<or>
      (\<exists>k<length t. t ! k = dot \<and> (\<forall>j<k. t ! j \<noteq> dot) \<and> (k \<le> 10 \<or> 240 \<le> k))"
    by (rule conjunct1, rule conjunct2)
  from far have "indexOf t dot \<le> 10 \<or> 240 \<le> indexOf t dot"
  proof
    assume "dot \<notin> set t"
    then show ?thesis by (simp add: indexOf_absent)
  next
    assume "\<exists>k<length t. t ! k = dot \<and> (\<forall>j<k. t ! j \<noteq> dot) \<and> (k \<le> 10 \<or> 240 \<le> k)"
    then obtain k where "k < length t" "t ! k = dot" "\<forall>j<k. t ! j \<noteq> dot"
      and out: "k \<le> 10 \<or> 240 \<le> k"
      by blast
    then have "indexOf t dot = int k" by (simp add: indexOf_first)
    with out show ?thesis by auto
  qed
  with long have g: "title_guard t d =
      (take 250 t @ lit ''...'',
       drop 250 t @ lit ''...'' @ (if d = [] then [] else newlines2 @ d))"
    by (rule title_guard_hard)
  then show "title_guard t d =
      (take 250 t @ lit ''...'',
       drop 250 t @ lit ''...'' @ (if d = [] then [] else newlines2 @ d))" .
  from g long show "length (fst (title_guard t d)) = 253"
    by (simp add: lit_def)
qed

theorem title_guard_first_period_witness:
  "length (lit ''Short title'') \<le> 250 \<and>
   title_guard (lit ''Short title'') [] = (lit ''Short title'', []) \<and>
   250 < length one_period_title \<and> one_period_title ! 120 = dot \<and>
   dot \<notin> set (take 120 one_period_title) \<and>
   \<not> js_ws (hd one_period_title) \<and>
   fst (title_guard one_period_title (lit ''More'')) = take 121 one_period_title \<and>
   length (fst (title_guard one_period_title (lit ''More''))) = 121 \<and>
   snd (title_guard one_period_title (lit ''More'')) =
     replicate 139 0x61 @ newlines2 @ lit ''More'' \<and>
   250 < length no_period_title \<and> dot \<notin> set no_period_title \<and>
   title_guard no_period_title [] =
     (replicate 250 0x61 @ lit ''...'', replicate 10 0x61 @ lit ''...'') \<and>
   length (fst (title_guard no_period_title [])) = 253 \<and>
   250 < length two_period_title \<and> two_period_title ! 5 = dot \<and>
   dot \<notin> set (take 5 two_period_title) \<and>
   title_guard two_period_title (lit ''More'') =
     (take 250 two_period_title @ lit ''...'',
      drop 250 two_period_title @ lit ''...'' @ newlines2 @ lit ''More'')"
proof -
  have short: "length (lit ''Short title'') \<le> 250"
    by (simp add: lit_def)
  have s1: "title_guard (lit ''Short title'') [] = (lit ''Short title'', [])"
    by (rule title_guard_first_period [of "lit ''Short title''" "[]" 0, THEN conjunct1, THEN mp,
          OF short])
  have long1: "250 < length one_period_title"
    by (simp add: one_period_title_def)
  have at: "one_period_title ! 120 = dot"
    by (simp add: one_period_title_def nth_append)
  have first: "\<forall>j<120. one_period_title ! j \<noteq> dot"
    by (simp add: one_period_title_def nth_append dot_def)
  have nows: "\<not> js_ws (hd one_period_title)"
    by (simp add: one_period_title_def js_ws_def hd_append)
  have bp: "250 < length one_period_title \<and> 120 < length one_period_title \<and>
      one_period_title ! 120 = dot \<and>
      (\<forall>j<120. one_period_title ! j \<noteq> dot) \<and> (10::nat) < 120 \<and> (120::nat) < 240"
    using long1 at first by simp
  note cut = title_guard_first_period [of one_period_title "lit ''More''" 120,
      THEN conjunct2, THEN conjunct1, THEN mp, OF bp]
  from cut have split:
    "title_guard one_period_title (lit ''More'') =
       (trim (take (Suc 120) one_period_title),
        trim (drop (Suc 120) one_period_title) @
          (if lit ''More'' = [] then [] else newlines2 @ lit ''More''))"
    by (rule conjunct1)
  note both = cut [THEN conjunct2, THEN mp, OF nows]
  have t1: "fst (title_guard one_period_title (lit ''More'')) = take 121 one_period_title"
    using both [THEN conjunct1] by simp
  have l1: "length (fst (title_guard one_period_title (lit ''More''))) = 121"
    using both [THEN conjunct2] by simp
  have rest: "trim (drop (Suc 120) one_period_title) = replicate 139 0x61"
    by (simp add: one_period_title_def trim_def js_ws_def)
  from split rest have d1: "snd (title_guard one_period_title (lit ''More'')) =
      replicate 139 0x61 @ newlines2 @ lit ''More''"
    by (simp add: lit_def)
  have long2: "250 < length no_period_title"
    by (simp add: no_period_title_def)
  have nodot: "dot \<notin> set no_period_title"
    by (simp add: no_period_title_def dot_def)
  note hard = title_guard_first_period [of no_period_title "[]" 0, THEN conjunct2,
      THEN conjunct2, THEN mp, OF conjI, OF long2, OF disjI1, OF nodot]
  have l2: "length (fst (title_guard no_period_title [])) = 253"
    using hard [THEN conjunct2] .
  have g2: "title_guard no_period_title [] =
      (replicate 250 0x61 @ lit ''...'', replicate 10 0x61 @ lit ''...'')"
    using hard [THEN conjunct1] by (simp add: no_period_title_def)
  have before: "dot \<notin> set (take 120 one_period_title)"
    by (simp add: one_period_title_def dot_def)
  have long3: "250 < length two_period_title"
    by (simp add: two_period_title_def)
  have at3: "two_period_title ! 5 = dot"
    by (simp add: two_period_title_def nth_append)
  have before3: "dot \<notin> set (take 5 two_period_title)"
    by (simp add: two_period_title_def dot_def)
  have "5 < length two_period_title \<and> two_period_title ! 5 = dot \<and>
      (\<forall>j<5. two_period_title ! j \<noteq> dot) \<and> ((5::nat) \<le> 10 \<or> (240::nat) \<le> 5)"
    using at3 by (simp add: two_period_title_def nth_append dot_def)
  then have "\<exists>k<length two_period_title. two_period_title ! k = dot \<and>
      (\<forall>j<k. two_period_title ! j \<noteq> dot) \<and> (k \<le> 10 \<or> 240 \<le> k)"
    by (intro exI [of _ 5])
  then have far: "250 < length two_period_title \<and>
      (dot \<notin> set two_period_title \<or>
       (\<exists>k<length two_period_title. two_period_title ! k = dot \<and>
          (\<forall>j<k. two_period_title ! j \<noteq> dot) \<and> (k \<le> 10 \<or> 240 \<le> k)))"
    using long3 by (intro conjI disjI2)
  note hard3 = title_guard_first_period [of two_period_title "lit ''More''" 0, THEN conjunct2,
      THEN conjunct2, THEN mp, OF far, THEN conjunct1]
  have ne: "lit ''More'' \<noteq> []"
    by (simp add: lit_def)
  have g3: "title_guard two_period_title (lit ''More'') =
     (take 250 two_period_title @ lit ''...'',
      drop 250 two_period_title @ lit ''...'' @ newlines2 @ lit ''More'')"
    using hard3 ne by simp
  show ?thesis
    by (intro conjI short s1 long1 at before nows t1 l1 d1 long2 nodot g2 l2
        long3 at3 before3 g3)
qed

text \<open>
  C3, as stated, fails. The guard looks at the first period of the title only
  (\<^verbatim>\<open>indexOf('.')\<close>). The 260-unit title \<open>two_period_title\<close> has a period
  at position 120, strictly between 10 and 240, and an earlier one at position 5:
  the guard does not cut after position 120 (which would leave 121 units) but
  truncates at 250 units and appends the ellipsis.
\<close>

theorem title_guard_later_period_counterexample: "length two_period_title = 260 \<and> two_period_title ! 120 = dot \<and>
  10 < (120::nat) \<and> (120::nat) < 240 \<and>
  fst (title_guard two_period_title []) \<noteq> take 121 two_period_title \<and>
  length (fst (title_guard two_period_title [])) = 253"
proof -
  have len: "length two_period_title = 260"
    by (simp add: two_period_title_def)
  have at: "two_period_title ! 120 = dot"
    by (simp add: two_period_title_def nth_append)
  have g: "title_guard two_period_title [] =
      (take 250 two_period_title @ lit ''...'', drop 250 two_period_title @ lit ''...'' @ [])"
    using title_guard_hard [of two_period_title "[]"] len two_period_index by simp
  have l: "length (fst (title_guard two_period_title [])) = 253"
    by (simp add: g len lit_def)
  have "fst (title_guard two_period_title []) \<noteq> take 121 two_period_title"
  proof
    assume "fst (title_guard two_period_title []) = take 121 two_period_title"
    then have "length (fst (title_guard two_period_title [])) = length (take 121 two_period_title)"
      by simp
    with l len show False by simp
  qed
  with len at l show ?thesis by simp
qed

section \<open>Properties of the selector cascade\<close>

lemma selector_loop_none:
  "\<forall>p\<in>set ss. length (query doc p) = 0 \<Longrightarrow> fst (selector_loop doc ss (sel, n)) = sel"
  by (induction ss arbitrary: n) auto

lemma selector_loop_first:
  "\<forall>p\<in>set pre. length (query doc p) = 0 \<Longrightarrow> 0 < length (query doc s) \<Longrightarrow>
   selector_loop doc (pre @ s # post) (sel, n) = (s, length (query doc s))"
  by (induction pre arbitrary: n) (auto simp add: Let_def)

lemma selector_loop_counts:
  "\<forall>p\<in>set ss. length (query doc p) = length (query doc' p) \<Longrightarrow>
   selector_loop doc ss st = selector_loop doc' ss st"
proof (induction ss arbitrary: st)
  case Nil
  then show ?case by simp
next
  case (Cons s ss)
  obtain sel n where st: "st = (sel, n)" by (cases st)
  from Cons.prems have "length (query doc s) = length (query doc' s)" by simp
  moreover from Cons.prems have "\<forall>p\<in>set ss. length (query doc p) = length (query doc' p)"
    by simp
  ultimately show ?case
    using Cons.IH st by (simp add: Let_def)
qed

lemma potentialSelectors_nonempty: "[] \<notin> set potentialSelectors"
  by (simp add: potentialSelectors_def lit_def)

lemma selectedSelector_first:
  assumes "potentialSelectors = pre @ s # post"
    and "\<forall>p\<in>set pre. length (query doc p) = 0"
    and "0 < length (query doc s)"
  shows "selectedSelector doc = s"
proof -
  have "selector_loop doc (pre @ s # post) ([], 0) = (s, length (query doc s))"
    using assms(2,3) by (rule selector_loop_first)
  then show ?thesis
    unfolding selectedSelector_def assms(1) by simp
qed

lemma selectedSelector_empty_iff:
  "selectedSelector doc = [] \<longleftrightarrow> (\<forall>p\<in>set potentialSelectors. length (query doc p) = 0)"
proof
  assume none: "\<forall>p\<in>set potentialSelectors. length (query doc p) = 0"
  then show "selectedSelector doc = []"
    by (simp only: selectedSelector_def selector_loop_none)
next
  assume empty: "selectedSelector doc = []"
  show "\<forall>p\<in>set potentialSelectors. length (query doc p) = 0"
  proof (rule ccontr)
    assume "\<not> (\<forall>p\<in>set potentialSelectors. length (query doc p) = 0)"
    then have "\<exists>p\<in>set potentialSelectors. 0 < length (query doc p)" by auto
    then obtain pre s post where split: "potentialSelectors = pre @ s # post"
      and hit: "0 < length (query doc s)" and miss: "\<forall>p\<in>set pre. \<not> 0 < length (query doc p)"
      by (auto dest!: split_list_first_prop)
    from miss have "\<forall>p\<in>set pre. length (query doc p) = 0" by simp
    with split have "selectedSelector doc = s"
      using hit by (rule selectedSelector_first)
    moreover have "s \<in> set potentialSelectors" unfolding split by simp
    ultimately show False
      using empty potentialSelectors_nonempty by auto
  qed
qed

text \<open>
  C5: the cascade returns the first candidate, in the order of \<open>potentialSelectors\<close>,
  with at least one match, whatever the later candidates match; it returns the empty
  string (no selector, so the fallback runs) exactly when every candidate has no
  match; and two pages with the same match counts give the same result.
\<close>

theorem selector_cascade_first_match:
  "(potentialSelectors = pre @ s # post \<and> (\<forall>p\<in>set pre. length (query doc p) = 0) \<and>
    0 < length (query doc s) \<longrightarrow> selectedSelector doc = s) \<and>
   ((\<forall>p\<in>set potentialSelectors. length (query doc p) = 0) \<longrightarrow> selectedSelector doc = []) \<and>
   (selectedSelector doc = [] \<longrightarrow> (\<forall>p\<in>set potentialSelectors. length (query doc p) = 0)) \<and>
   ((\<forall>p\<in>set potentialSelectors. length (query doc p) = length (query doc' p)) \<longrightarrow>
      selectedSelector doc = selectedSelector doc')"
proof (intro conjI impI)
  assume "potentialSelectors = pre @ s # post \<and> (\<forall>p\<in>set pre. length (query doc p) = 0) \<and>
    0 < length (query doc s)"
  then show "selectedSelector doc = s"
    by (intro selectedSelector_first [of pre s post]) auto
next
  assume "\<forall>p\<in>set potentialSelectors. length (query doc p) = 0"
  then show "selectedSelector doc = []"
    by (simp only: selectedSelector_empty_iff)
next
  assume "selectedSelector doc = []"
  then show "\<forall>p\<in>set potentialSelectors. length (query doc p) = 0"
    by (simp only: selectedSelector_empty_iff)
next
  assume "\<forall>p\<in>set potentialSelectors. length (query doc p) = length (query doc' p)"
  then show "selectedSelector doc = selectedSelector doc'"
    by (simp only: selectedSelector_def selector_loop_counts)
qed

lemma article_split:
  "potentialSelectors =
     [lit ''.WhatIsNewPage-module__item'', lit ''.news-item'', lit ''.grid-item'',
      lit ''.nw-c-NewsItem''] @ lit ''article'' #
     [lit ''.card'', lit ''.link-block'', lit ''li.news-list-item'',
      lit ''.NintendoCard-module__main'', lit ''.COMPT-module__tile'',
      lit ''.WhatsNewHighlightModule-module__tile'']"
  by (simp add: potentialSelectors_def)

lemma article_document_counts:
  "(\<forall>p\<in>set [lit ''.WhatIsNewPage-module__item'', lit ''.news-item'', lit ''.grid-item'',
      lit ''.nw-c-NewsItem'']. length (query article_document p) = 0)"
  "length (query article_document (lit ''article'')) = 1"
  "length (query article_document (lit ''.card'')) = 2"
  by (simp_all add: article_document_def blank_document_def lit_def)

theorem selector_cascade_first_match_witness:
  "selectedSelector article_document = lit ''article'' \<and>
   length (query article_document (lit ''article'')) = 1 \<and>
   length (query article_document (lit ''.card'')) = 2 \<and>
   selectedSelector blank_document = [] \<and>
   length (query blank_document (lit ''article'')) = 0 \<and>
   selectedSelector (blank_document\<lparr>all_a := [\<lparr>a_text = [], a_href = None, a_parents = []\<rparr>]\<rparr>) =
     selectedSelector blank_document"
proof -
  have zero: "\<forall>p\<in>set potentialSelectors. length (query blank_document p) = 0"
    by (simp add: blank_document_def)
  have same: "\<forall>p\<in>set potentialSelectors.
      length (query (blank_document\<lparr>all_a := [\<lparr>a_text = [], a_href = None, a_parents = []\<rparr>]\<rparr>) p) =
      length (query blank_document p)"
    by simp
  have hit: "0 < length (query article_document (lit ''article''))"
    by (simp add: article_document_counts)
  have a: "selectedSelector article_document = lit ''article''"
    by (rule selector_cascade_first_match [THEN conjunct1, THEN mp,
          OF conjI, OF article_split, OF conjI, OF article_document_counts(1), OF hit])
  have b: "selectedSelector blank_document = []"
    by (rule selector_cascade_first_match [of "[]" "[]" "[]" blank_document blank_document,
          THEN conjunct2, THEN conjunct1, THEN mp, OF zero])
  have c: "\<forall>p\<in>set potentialSelectors. length (query blank_document p) = 0"
    by (rule selector_cascade_first_match [of "[]" "[]" "[]" blank_document blank_document,
          THEN conjunct2, THEN conjunct2, THEN conjunct1, THEN mp, OF b])
  have "lit ''article'' \<in> set potentialSelectors"
    by (simp add: potentialSelectors_def)
  with c have c': "length (query blank_document (lit ''article'')) = 0"
    by (rule bspec)
  have d: "selectedSelector (blank_document\<lparr>all_a := [\<lparr>a_text = [], a_href = None, a_parents = []\<rparr>]\<rparr>) =
     selectedSelector blank_document"
    by (rule selector_cascade_first_match [of "[]" "[]" "[]" _ _,
          THEN conjunct2, THEN conjunct2, THEN conjunct2, THEN mp, OF same])
  show ?thesis
    by (intro conjI a article_document_counts(2,3) b c' d)
qed

section \<open>Properties of the structured extractor\<close>

lemma each_item_append:
  "each_item limit i els acc = acc @ List.map_filter node_item (take (limit - i) els)"
proof (induction els arbitrary: i acc)
  case Nil
  then show ?case by simp
next
  case (Cons el els)
  show ?case
  proof (cases "limit \<le> i")
    case True
    then show ?thesis
      by (simp add: Cons.IH)
  next
    case False
    then have "limit - i = Suc (limit - Suc i)" by simp
    then show ?thesis
      using False by (simp add: Cons.IH split: option.split)
  qed
qed


lemma each_item_first_nodes:
  "each_item limit 0 els [] = List.map_filter node_item (take limit els)"
  by (simp add: each_item_append)



lemma extract_news_selected:
  "selectedSelector doc \<noteq> [] \<Longrightarrow>
   extract_news parse doc limit =
     List.map_filter node_item (take limit (query doc (selectedSelector doc)))"
  by (simp add: extract_news_def Let_def each_item_first_nodes)

lemma fetchNintendoNews_page:
  "fetchNintendoNews (page_runtime doc) limit = extract_news node_date_parse doc limit"
  by (simp add: fetchNintendoNews_def fetchNintendoNews_try_def page_runtime_def)

lemma selected_article:
  "query doc = (\<lambda>selector. if selector = lit ''article'' then els else []) \<Longrightarrow> els \<noteq> [] \<Longrightarrow>
   selectedSelector doc = lit ''article''"
  by (rule selectedSelector_first [OF article_split]) (simp_all add: lit_def)











section \<open>The link of an item\<close>

lemma relative_link_selected: "selectedSelector relative_link_document = lit ''article''"
  by (rule selected_article
      [of _ "[(headline (lit ''Launch day''))\<lparr>find_a_href := Some (lit ''news/article-1'')\<rparr>]"])
    (simp_all add: relative_link_document_def blank_document_def)

text \<open>
  C2 at a failing input: the page \<open>relative_link_document\<close> matches the selector
  \<^verbatim>\<open>article\<close>, and the anchor of its element has the relative target
  \<^verbatim>\<open>news/article-1\<close>. The selector path only resolves targets that start with
  \<^verbatim>\<open>/\<close>, so the item's link is the relative target itself, while the fallback's
  \<open>full_link\<close> resolves the same target against the origin.
\<close>

theorem selector_path_relative_link:
  "map link (fetchNintendoNews (page_runtime relative_link_document) 5) =
     [lit ''news/article-1''] \<and>
   \<not> js_includes (lit ''news/article-1'') (lit ''://'') \<and>
   \<not> startsWith (lit ''news/article-1'') nintendo_origin \<and>
   full_link (lit ''news/article-1'') = lit ''https://www.nintendo.com/news/article-1''"
proof -
  have ne: "selectedSelector relative_link_document \<noteq> []"
    by (simp add: relative_link_selected lit_def)
  have q: "query relative_link_document (lit ''article'') =
      [(headline (lit ''Launch day''))\<lparr>find_a_href := Some (lit ''news/article-1'')\<rparr>]"
    by (simp add: relative_link_document_def blank_document_def)
  have t: "trim (lit ''Launch day'') = lit ''Launch day''"
    by (rule trim_no_edge_ws) (simp_all add: lit_def js_ws_def)
  have e: "trim [] = []"
    by (simp add: trim_def)
  have n: "\<not> startsWith (lit ''news/article-1'') [slash]"
    by (simp add: lit_def startsWith_def slash_def)
  have l: "node_item ((headline (lit ''Launch day''))\<lparr>find_a_href := Some (lit ''news/article-1'')\<rparr>) =
      Some \<lparr>title = lit ''Launch day'', link = lit ''news/article-1'', date = [],
        imageUrl = None, description = []\<rparr>"
  proof -
    have nt: "lit ''Launch day'' \<noteq> []" and nl: "lit ''news/article-1'' \<noteq> []"
      by (simp_all add: lit_def)
    show ?thesis
      by (simp add: node_item_def node_title_def node_description_def node_link_def
          node_date_def node_image_def headline_def blank_element_def truthy_def Let_def
          t e n nt nl)
  qed
  have a: "map link (fetchNintendoNews (page_runtime relative_link_document) 5) =
     [lit ''news/article-1'']"
    by (simp add: fetchNintendoNews_page extract_news_selected [OF ne] relative_link_selected q l)
  have b: "\<not> js_includes (lit ''news/article-1'') (lit ''://'')"
    by (simp add: lit_def startsWith_def)
  have c: "\<not> startsWith (lit ''news/article-1'') nintendo_origin"
    by (simp add: lit_def startsWith_def nintendo_origin_def)
  have d: "full_link (lit ''news/article-1'') = lit ''https://www.nintendo.com/news/article-1''"
    using b by (simp add: full_link_def) (simp add: lit_def startsWith_def nintendo_origin_def slash_def)
  show ?thesis
    by (intro conjI a b c d)
qed

section \<open>Failures of the requests\<close>

lemma article_details_of_no_match:
  assumes "og_image doc = None" "twitter_image doc = None" "article_header_img_src doc = None"
    "article_content_img_src doc = None" "all_img doc = []" "og_description doc = None"
    "meta_description doc = None" "article_content_p_text doc = []"
  shows "article_details_of doc = default_details"
  using assms
  by (simp add: article_details_of_def default_details_def js_or_def truthy_def first_img_src_def
      trim_def)

text \<open>
  C7: \<open>fetchArticleDetails\<close> always returns article details. When the request
  fails, or the page cannot be loaded, the result is the default, image \<open>''\<close> and
  description \<open>Nintendo news update\<close>; so it is on a page where none of the queries for
  an image or a description matches; in every other case it is what the page gives.
\<close>

theorem fetchArticleDetails_default:
  "(axios_get rt url = Inl e \<longrightarrow> fetchArticleDetails rt url = default_details) \<and>
   (axios_get rt url = Inr html \<and> load rt html = Inl e \<longrightarrow>
      fetchArticleDetails rt url = default_details) \<and>
   (axios_get rt url = Inr html \<and> load rt html = Inr doc \<and>
    og_image doc = None \<and> twitter_image doc = None \<and> article_header_img_src doc = None \<and>
    article_content_img_src doc = None \<and> all_img doc = [] \<and> og_description doc = None \<and>
    meta_description doc = None \<and> article_content_p_text doc = [] \<longrightarrow>
      fetchArticleDetails rt url = default_details) \<and>
   (axios_get rt url = Inr html \<and> load rt html = Inr doc \<longrightarrow>
      fetchArticleDetails rt url = article_details_of doc) \<and>
   default_details =
     \<lparr>details_imageUrl = [], details_description = lit ''Nintendo news update''\<rparr>"
proof (intro conjI impI)
  assume "axios_get rt url = Inl e"
  then show "fetchArticleDetails rt url = default_details"
    by (simp add: fetchArticleDetails_def fetchArticleDetails_try_def)
next
  assume "axios_get rt url = Inr html \<and> load rt html = Inl e"
  then show "fetchArticleDetails rt url = default_details"
    by (simp add: fetchArticleDetails_def fetchArticleDetails_try_def)
next
  assume h: "axios_get rt url = Inr html \<and> load rt html = Inr doc \<and>
    og_image doc = None \<and> twitter_image doc = None \<and> article_header_img_src doc = None \<and>
    article_content_img_src doc = None \<and> all_img doc = [] \<and> og_description doc = None \<and>
    meta_description doc = None \<and> article_content_p_text doc = []"
  then have "article_details_of doc = default_details"
    by (intro article_details_of_no_match) simp_all
  with h show "fetchArticleDetails rt url = default_details"
    by (simp add: fetchArticleDetails_def fetchArticleDetails_try_def)
next
  assume "axios_get rt url = Inr html \<and> load rt html = Inr doc"
  then show "fetchArticleDetails rt url = article_details_of doc"
    by (simp add: fetchArticleDetails_def fetchArticleDetails_try_def)
next
  show "default_details =
     \<lparr>details_imageUrl = [], details_description = lit ''Nintendo news update''\<rparr>"
    by (simp add: default_details_def placeholder_description_def)
qed

theorem fetchArticleDetails_default_witness:
  "axios_get offline_runtime (lit ''https://www.nintendo.com/a'') = Inl NetworkError \<and>
   fetchArticleDetails offline_runtime (lit ''https://www.nintendo.com/a'') = default_details \<and>
   load unparsable_runtime (lit ''<html></html>'') = Inl ParseError \<and>
   fetchArticleDetails unparsable_runtime (lit ''https://www.nintendo.com/a'') = default_details \<and>
   load (page_runtime blank_document) (lit ''<html></html>'') = Inr blank_document \<and>
   fetchArticleDetails (page_runtime blank_document) (lit ''https://www.nintendo.com/a'') =
     default_details \<and>
   fetchArticleDetails (page_runtime relative_link_document) (lit ''https://www.nintendo.com/a'') =
     article_details_of relative_link_document"
proof -
  let ?u = "lit ''https://www.nintendo.com/a''"
  have off: "axios_get offline_runtime ?u = Inl NetworkError"
    by (simp add: offline_runtime_def)
  have a: "fetchArticleDetails offline_runtime ?u = default_details"
    by (rule fetchArticleDetails_default [THEN conjunct1, THEN mp, OF off])
  have up: "axios_get unparsable_runtime ?u = Inr (lit ''<html></html>'') \<and>
      load unparsable_runtime (lit ''<html></html>'') = Inl ParseError"
    by (simp add: unparsable_runtime_def)
  have b: "fetchArticleDetails unparsable_runtime ?u = default_details"
    by (rule fetchArticleDetails_default [THEN conjunct2, THEN conjunct1, THEN mp, OF up])
  have bl: "axios_get (page_runtime blank_document) ?u = Inr (lit ''<html></html>'') \<and>
      load (page_runtime blank_document) (lit ''<html></html>'') = Inr blank_document \<and>
      og_image blank_document = None \<and> twitter_image blank_document = None \<and>
      article_header_img_src blank_document = None \<and>
      article_content_img_src blank_document = None \<and> all_img blank_document = [] \<and>
      og_description blank_document = None \<and>
      meta_description blank_document = None \<and> article_content_p_text blank_document = []"
    by (simp add: page_runtime_def blank_document_def)
  have c: "fetchArticleDetails (page_runtime blank_document) ?u = default_details"
    by (rule fetchArticleDetails_default [THEN conjunct2, THEN conjunct2, THEN conjunct1,
          THEN mp, OF bl])
  have rl: "axios_get (page_runtime relative_link_document) ?u = Inr (lit ''<html></html>'') \<and>
      load (page_runtime relative_link_document) (lit ''<html></html>'') =
        Inr relative_link_document"
    by (simp add: page_runtime_def)
  have d: "fetchArticleDetails (page_runtime relative_link_document) ?u =
      article_details_of relative_link_document"
    by (rule fetchArticleDetails_default [where e = NetworkError, THEN conjunct2, THEN conjunct2,
          THEN conjunct2, THEN conjunct1, THEN mp, OF rl])
  show ?thesis
    by (intro conjI off a up [THEN conjunct2] b bl [THEN conjunct2, THEN conjunct1] c d)
qed

text \<open>
  C8: \<open>fetchNintendoNews\<close> always returns a list. When the request for the listing
  page fails, when the page cannot be loaded, and for any error of the \<^verbatim>\<open>try\<close> block,
  the list is empty; otherwise it is the list the block returns.
\<close>

theorem fetchNintendoNews_empty_on_error:
  "(axios_get rt NINTENDO_NEWS_URL = Inl e \<longrightarrow> fetchNintendoNews rt limit = []) \<and>
   (axios_get rt NINTENDO_NEWS_URL = Inr html \<and> load rt html = Inl e \<longrightarrow>
      fetchNintendoNews rt limit = []) \<and>
   (fetchNintendoNews_try rt limit = Inl e \<longrightarrow> fetchNintendoNews rt limit = []) \<and>
   (axios_get rt NINTENDO_NEWS_URL = Inr html \<and> load rt html = Inr doc \<longrightarrow>
      fetchNintendoNews rt limit = extract_news (date_parse rt) doc limit)"
  by (simp add: fetchNintendoNews_def fetchNintendoNews_try_def)

theorem fetchNintendoNews_empty_on_error_witness:
  "axios_get offline_runtime NINTENDO_NEWS_URL = Inl NetworkError \<and>
   fetchNintendoNews offline_runtime 5 = [] \<and>
   load unparsable_runtime (lit ''<html></html>'') = Inl ParseError \<and>
   fetchNintendoNews unparsable_runtime 3 = [] \<and>
   fetchNintendoNews_try unparsable_runtime 5 = Inl ParseError \<and>
   fetchNintendoNews unparsable_runtime 5 = [] \<and>
   fetchNintendoNews (page_runtime three_article_document) 5 =
     extract_news node_date_parse three_article_document 5"
proof -
  have off: "axios_get offline_runtime NINTENDO_NEWS_URL = Inl NetworkError"
    by (simp add: offline_runtime_def)
  have a: "fetchNintendoNews offline_runtime 5 = []"
    by (rule fetchNintendoNews_empty_on_error [THEN conjunct1, THEN mp, OF off])
  have up: "axios_get unparsable_runtime NINTENDO_NEWS_URL = Inr (lit ''<html></html>'') \<and>
      load unparsable_runtime (lit ''<html></html>'') = Inl ParseError"
    by (simp add: unparsable_runtime_def)
  have b: "fetchNintendoNews unparsable_runtime 3 = []"
    by (rule fetchNintendoNews_empty_on_error [THEN conjunct2, THEN conjunct1, THEN mp, OF up])
  have tr: "fetchNintendoNews_try unparsable_runtime 5 = Inl ParseError"
    by (simp add: fetchNintendoNews_try_def unparsable_runtime_def)
  have b': "fetchNintendoNews unparsable_runtime 5 = []"
    by (rule fetchNintendoNews_empty_on_error [where html = "[]" and doc = blank_document,
          THEN conjunct2, THEN conjunct2, THEN conjunct1, THEN mp, OF tr])
  have pg: "axios_get (page_runtime three_article_document) NINTENDO_NEWS_URL =
        Inr (lit ''<html></html>'') \<and>
      load (page_runtime three_article_document) (lit ''<html></html>'') =
        Inr three_article_document"
    by (simp add: page_runtime_def)
  have "fetchNintendoNews (page_runtime three_article_document) 5 =
      extract_news (date_parse (page_runtime three_article_document)) three_article_document 5"
    by (rule fetchNintendoNews_empty_on_error [where e = NetworkError, THEN conjunct2,
          THEN conjunct2, THEN conjunct2, THEN mp, OF pg])
  then have c: "fetchNintendoNews (page_runtime three_article_document) 5 =
      extract_news node_date_parse three_article_document 5"
    by (simp add: page_runtime_def)
  show ?thesis
    by (intro conjI off a up [THEN conjunct2] b tr b' c)
qed

section \<open>Facts about the sort\<close>

lemma run_rest_append:
  "run_rest comparefn d previous xs = (run, rest) \<Longrightarrow> xs = run @ rest"
  by (induction xs arbitrary: previous run rest) (auto split: if_splits prod.splits)

lemma run_rest_chain:
  "run_rest comparefn d previous xs = (run, rest) \<Longrightarrow>
   successively (\<lambda>a b. sorts_before comparefn b a = d) (previous # run)"
  by (induction xs arbitrary: previous run rest) (auto split: if_splits prod.splits)

lemma count_and_make_run_mset:
  "count_and_make_run comparefn xs = (run, rest) \<Longrightarrow> mset run + mset rest = mset xs"
proof (induction comparefn xs rule: count_and_make_run.induct)
  case (1 comparefn a b xs)
  obtain r s where rs: "run_rest comparefn (sorts_before comparefn b a) b xs = (r, s)"
    by (cases "run_rest comparefn (sorts_before comparefn b a) b xs")
  then have "xs = r @ s" by (rule run_rest_append)
  with "1.prems" rs show ?case
    by (auto simp add: Let_def split: if_splits)
qed simp_all

lemma mset_binary_insert:
  "mset (binary_insert comparefn placed pivot) = add_mset pivot (mset placed)"
proof -
  have "mset (take n placed) + mset (drop n placed) = mset placed" for n
    by (simp flip: mset_append)
  then show ?thesis
    by (simp add: binary_insert_def Let_def)
qed

lemma set_binary_insert:
  "set (binary_insert comparefn placed pivot) = insert pivot (set placed)"
proof -
  have "set_mset (mset (binary_insert comparefn placed pivot)) =
      set_mset (add_mset pivot (mset placed))"
    by (simp only: mset_binary_insert)
  then show ?thesis by simp
qed

lemma mset_insert_fold:
  "mset (foldl (binary_insert comparefn) placed xs) = mset placed + mset xs"
  by (induction xs arbitrary: placed) (simp_all add: mset_binary_insert)

lemma mset_array_sort: "mset (array_sort comparefn xs) = mset xs"
proof (cases "length xs < 2")
  case True
  then show ?thesis by (simp add: array_sort_def)
next
  case False
  obtain run rest where rr: "count_and_make_run comparefn xs = (run, rest)"
    by (cases "count_and_make_run comparefn xs")
  then have "mset run + mset rest = mset xs" by (rule count_and_make_run_mset)
  with False rr show ?thesis
    by (simp add: array_sort_def mset_insert_fold)
qed

lemma set_array_sort: "set (array_sort comparefn xs) = set xs"
  using mset_array_sort [of comparefn xs] by (rule mset_eq_setD)

lemma length_array_sort: "length (array_sort comparefn xs) = length xs"
  using mset_array_sort [of comparefn xs] by (rule mset_eq_length)

lemma newest_first_trans:
  assumes "newest_first parse a b" "newest_first parse b c"
  shows "newest_first parse a c"
  using assms by (auto simp add: newest_first_def split: option.splits)

lemma newest_first_transp: "transp (newest_first parse)"
  by (rule transpI) (rule newest_first_trans)

lemma not_sorts_before_newest_first:
  assumes "date x \<noteq> [] \<longrightarrow> parse (date x) \<noteq> None" "date y \<noteq> [] \<longrightarrow> parse (date y) \<noteq> None"
    and "\<not> sorts_before (compare_news parse) x y"
  shows "newest_first parse y x"
  using assms
  by (auto simp add: newest_first_def sorts_before_def compare_news_def split: option.splits if_splits)

lemma sorts_before_newest_first:
  assumes "sorts_before (compare_news parse) x y"
  shows "newest_first parse x y"
  using assms
  by (auto simp add: newest_first_def sorts_before_def compare_news_def split: option.splits if_splits)

lemma sorts_before_later:
  assumes "sorts_before (compare_news parse) p a" "newest_first parse a b"
  shows "sorts_before (compare_news parse) p b"
  using assms
  by (auto simp add: newest_first_def sorts_before_def compare_news_def split: option.splits if_splits)

lemma ascending_chain_sorted:
  assumes "successively (\<lambda>a b. \<not> sorts_before (compare_news parse) b a) xs"
    and "\<forall>item\<in>set xs. date item \<noteq> [] \<longrightarrow> parse (date item) \<noteq> None"
  shows "sorted_wrt (newest_first parse) xs"
proof -
  from assms have "successively (newest_first parse) xs"
  proof (induction "\<lambda>a b. \<not> sorts_before (compare_news parse) b a" xs rule: successively.induct)
    case (3 x y xs)
    then have "newest_first parse x y"
      by (intro not_sorts_before_newest_first) auto
    with 3 show ?case by simp
  qed simp_all
  then show ?thesis
    by (rule successively_conv_sorted_wrt [OF newest_first_transp, THEN iffD1])
qed

lemma descending_chain_sorted:
  assumes "successively (\<lambda>a b. sorts_before (compare_news parse) b a) xs"
  shows "sorted_wrt (newest_first parse) (rev xs)"
proof -
  from assms have "successively (\<lambda>a b. newest_first parse b a) xs"
    by (rule successively_mono) (rule sorts_before_newest_first)
  then have "successively (newest_first parse) (rev xs)"
    by simp
  then show ?thesis
    by (rule successively_conv_sorted_wrt [OF newest_first_transp, THEN iffD1])
qed

lemma count_and_make_run_sorted:
  assumes "count_and_make_run (compare_news parse) xs = (run, rest)"
    and "\<forall>item\<in>set xs. date item \<noteq> [] \<longrightarrow> parse (date item) \<noteq> None"
  shows "sorted_wrt (newest_first parse) run"
  using assms
proof (induction "compare_news parse" xs rule: count_and_make_run.induct)
  case (1 a b xs)
  let ?d = "sorts_before (compare_news parse) b a"
  obtain r s where rs: "run_rest (compare_news parse) ?d b xs = (r, s)"
    by (cases "run_rest (compare_news parse) ?d b xs")
  then have xs: "xs = r @ s" by (rule run_rest_append)
  from rs have chain: "successively (\<lambda>x y. sorts_before (compare_news parse) y x = ?d) (b # r)"
    by (rule run_rest_chain)
  show ?case
  proof (cases ?d)
    case True
    with chain have "successively (\<lambda>x y. sorts_before (compare_news parse) y x) (a # b # r)"
      by simp
    then have "sorted_wrt (newest_first parse) (rev (a # b # r))"
      by (rule descending_chain_sorted)
    with True rs "1.prems"(1) show ?thesis
      by (simp add: Let_def)
  next
    case False
    with chain have "successively (\<lambda>x y. \<not> sorts_before (compare_news parse) y x) (a # b # r)"
      by simp
    moreover from "1.prems"(2) xs
    have "\<forall>item\<in>set (a # b # r). date item \<noteq> [] \<longrightarrow> parse (date item) \<noteq> None"
      by auto
    ultimately have "sorted_wrt (newest_first parse) (a # b # r)"
      by (rule ascending_chain_sorted)
    with False rs "1.prems"(1) show ?thesis
      by (simp add: Let_def)
  qed
qed auto

lemma binary_search_place:
  assumes "sorted_wrt (newest_first parse) placed"
    and "left \<le> right" "right \<le> length placed"
    and "\<forall>j<left. \<not> sorts_before (compare_news parse) pivot (placed ! j)"
    and "\<forall>j. right \<le> j \<and> j < length placed \<longrightarrow> sorts_before (compare_news parse) pivot (placed ! j)"
  shows "binary_search (compare_news parse) pivot placed left right \<le> length placed \<and>
    (\<forall>j<binary_search (compare_news parse) pivot placed left right.
        \<not> sorts_before (compare_news parse) pivot (placed ! j)) \<and>
    (\<forall>j. binary_search (compare_news parse) pivot placed left right \<le> j \<and> j < length placed \<longrightarrow>
        sorts_before (compare_news parse) pivot (placed ! j))"
  using assms
proof (induction "compare_news parse" pivot placed left right rule: binary_search.induct)
  case (1 pivot placed left right)
  let ?mid = "left + (right - left) div 2"
  show ?case
  proof (cases "left < right")
    case False
    with "1.prems" have eq: "left = right" by simp
    have "binary_search (compare_news parse) pivot placed left right = left"
      using False by (subst binary_search.simps) simp
    with "1.prems" eq show ?thesis
      by simp
  next
    case True
    then have mid: "left \<le> ?mid" "?mid < right" by auto
    with "1.prems"(3) have midlen: "?mid < length placed" by simp
    show ?thesis
    proof (cases "sorts_before (compare_news parse) pivot (placed ! ?mid)")
      case before: True
      have "\<forall>j. ?mid \<le> j \<and> j < length placed \<longrightarrow>
          sorts_before (compare_news parse) pivot (placed ! j)"
      proof (intro allI impI)
        fix j
        assume j: "?mid \<le> j \<and> j < length placed"
        show "sorts_before (compare_news parse) pivot (placed ! j)"
        proof (cases "j = ?mid")
          case True
          with before show ?thesis by simp
        next
          case False
          with j have "?mid < j" "j < length placed" by auto
          with "1.prems"(1) have "newest_first parse (placed ! ?mid) (placed ! j)"
            by (simp add: sorted_wrt_nth_less)
          with before show ?thesis by (rule sorts_before_later)
        qed
      qed
      with "1.prems" mid midlen
      have "binary_search (compare_news parse) pivot placed left ?mid \<le> length placed \<and>
        (\<forall>j<binary_search (compare_news parse) pivot placed left ?mid.
            \<not> sorts_before (compare_news parse) pivot (placed ! j)) \<and>
        (\<forall>j. binary_search (compare_news parse) pivot placed left ?mid \<le> j \<and> j < length placed \<longrightarrow>
            sorts_before (compare_news parse) pivot (placed ! j))"
        using True before by (intro "1.hyps"(1)) auto
      moreover have "binary_search (compare_news parse) pivot placed left right =
          binary_search (compare_news parse) pivot placed left ?mid"
        using True before by (subst binary_search.simps) (simp add: Let_def)
      ultimately show ?thesis by simp
    next
      case after: False
      have "\<forall>j<?mid + 1. \<not> sorts_before (compare_news parse) pivot (placed ! j)"
      proof (intro allI impI)
        fix j
        assume j: "j < ?mid + 1"
        show "\<not> sorts_before (compare_news parse) pivot (placed ! j)"
        proof (cases "j = ?mid")
          case True
          with after show ?thesis by simp
        next
          case False
          with j have "j < ?mid" by simp
          with "1.prems"(1) midlen have "newest_first parse (placed ! j) (placed ! ?mid)"
            by (simp add: sorted_wrt_nth_less)
          with after show ?thesis
            using sorts_before_later by blast
        qed
      qed
      with "1.prems" mid midlen
      have "binary_search (compare_news parse) pivot placed (?mid + 1) right \<le> length placed \<and>
        (\<forall>j<binary_search (compare_news parse) pivot placed (?mid + 1) right.
            \<not> sorts_before (compare_news parse) pivot (placed ! j)) \<and>
        (\<forall>j. binary_search (compare_news parse) pivot placed (?mid + 1) right \<le> j \<and> j < length placed \<longrightarrow>
            sorts_before (compare_news parse) pivot (placed ! j))"
        using True after by (intro "1.hyps"(2)) auto
      moreover have "binary_search (compare_news parse) pivot placed left right =
          binary_search (compare_news parse) pivot placed (?mid + 1) right"
        using True after by (subst binary_search.simps) (simp add: Let_def)
      ultimately show ?thesis by simp
    qed
  qed
qed


lemma binary_insert_sorted:
  assumes "sorted_wrt (newest_first parse) placed"
    and "\<forall>item\<in>set (pivot # placed). date item \<noteq> [] \<longrightarrow> parse (date item) \<noteq> None"
  shows "sorted_wrt (newest_first parse) (binary_insert (compare_news parse) placed pivot)"
proof -
  let ?l = "binary_search (compare_news parse) pivot placed 0 (length placed)"
  from assms(1) have place: "?l \<le> length placed \<and>
      (\<forall>j<?l. \<not> sorts_before (compare_news parse) pivot (placed ! j)) \<and>
      (\<forall>j. ?l \<le> j \<and> j < length placed \<longrightarrow>
          sorts_before (compare_news parse) pivot (placed ! j))"
    by (intro binary_search_place) auto
  have front: "\<forall>x\<in>set (take ?l placed). newest_first parse x pivot"
  proof
    fix x
    assume "x \<in> set (take ?l placed)"
    then obtain j where j: "j < ?l" "j < length placed" "x = placed ! j"
      by (auto simp add: in_set_conv_nth)
    with place have "\<not> sorts_before (compare_news parse) pivot x" by simp
    moreover from j have "x \<in> set placed" by simp
    ultimately show "newest_first parse x pivot"
      using assms(2) by (intro not_sorts_before_newest_first) auto
  qed
  have behind: "\<forall>y\<in>set (drop ?l placed). newest_first parse pivot y"
  proof
    fix y
    assume "y \<in> set (drop ?l placed)"
    then obtain j where "j < length placed - ?l" "y = placed ! (?l + j)"
      by (auto simp add: in_set_conv_nth)
    with place have "sorts_before (compare_news parse) pivot y" by simp
    then show "newest_first parse pivot y"
      by (rule sorts_before_newest_first)
  qed
  from assms(1) have "sorted_wrt (newest_first parse) (take ?l placed @ drop ?l placed)"
    by simp
  then have "sorted_wrt (newest_first parse) (take ?l placed)"
    and "sorted_wrt (newest_first parse) (drop ?l placed)"
    and "\<forall>x\<in>set (take ?l placed). \<forall>y\<in>set (drop ?l placed). newest_first parse x y"
    unfolding sorted_wrt_append by blast+
  with front behind
  have "sorted_wrt (newest_first parse) (take ?l placed @ pivot # drop ?l placed)"
    unfolding sorted_wrt_append by simp
  then show ?thesis
    by (simp add: binary_insert_def Let_def)
qed

lemma insert_fold_sorted:
  assumes "sorted_wrt (newest_first parse) placed"
    and "\<forall>item\<in>set placed \<union> set xs. date item \<noteq> [] \<longrightarrow> parse (date item) \<noteq> None"
  shows "sorted_wrt (newest_first parse) (foldl (binary_insert (compare_news parse)) placed xs)"
  using assms
proof (induction xs arbitrary: placed)
  case Nil
  then show ?case by simp
next
  case (Cons x xs)
  from Cons.prems have s: "sorted_wrt (newest_first parse)
      (binary_insert (compare_news parse) placed x)"
    by (intro binary_insert_sorted) auto
  have "set (binary_insert (compare_news parse) placed x) = insert x (set placed)"
    by (rule set_binary_insert)
  with Cons.prems(2)
  have "\<forall>item\<in>set (binary_insert (compare_news parse) placed x) \<union> set xs.
      date item \<noteq> [] \<longrightarrow> parse (date item) \<noteq> None"
    by auto
  with s show ?case
    by (simp add: Cons.IH)
qed

lemma array_sort_sorted:
  assumes "\<forall>item\<in>set items. date item \<noteq> [] \<longrightarrow> parse (date item) \<noteq> None"
  shows "sorted_wrt (newest_first parse) (array_sort (compare_news parse) items)"
proof (cases "length items < 2")
  case True
  then have "items = [] \<or> (\<exists>x. items = [x])"
    by (cases items) (auto simp add: length_Suc_conv)
  then show ?thesis
    by (auto simp add: array_sort_def)
next
  case False
  obtain run rest where rr: "count_and_make_run (compare_news parse) items = (run, rest)"
    by (cases "count_and_make_run (compare_news parse) items")
  then have "mset run + mset rest = mset items"
    by (rule count_and_make_run_mset)
  then have "set run \<union> set rest = set items"
    by (metis mset_append mset_eq_setD set_append)
  with assms
  have ok: "\<forall>item\<in>set run \<union> set rest. date item \<noteq> [] \<longrightarrow> parse (date item) \<noteq> None"
    by simp
  from rr assms have "sorted_wrt (newest_first parse) run"
    by (rule count_and_make_run_sorted)
  then have "sorted_wrt (newest_first parse) (foldl (binary_insert (compare_news parse)) run rest)"
    using ok by (rule insert_fold_sorted)
  with False rr show ?thesis
    by (simp add: array_sort_def)
qed

lemma sorted_wrt_take_list: "sorted_wrt P xs \<Longrightarrow> sorted_wrt P (take n xs)"
  by (induction xs arbitrary: n) (auto simp add: take_Cons' dest: in_set_takeD)

lemma mset_take_subset: "mset (take n xs) \<subseteq># mset xs"
proof -
  have "mset xs = mset (take n xs) + mset (drop n xs)"
    by (simp flip: mset_append)
  then show ?thesis by simp
qed

section \<open>Facts about the fallback\<close>

lemma each_anchor_append:
  "each_anchor allImages els acc = acc @ List.map_filter (anchor_item allImages) els"
  by (induction els arbitrary: acc) (simp_all split: option.split)

lemma anchor_item_description:
  "anchor_item allImages el = Some item \<Longrightarrow> description item = placeholder_description"
  by (auto simp add: anchor_item_def Let_def split: if_splits)

lemma each_anchor_description:
  assumes "item \<in> set (each_anchor allImages els [])"
  shows "description item = placeholder_description"
proof -
  from assms obtain el where "anchor_item allImages el = Some item"
    by (auto simp add: each_anchor_append List.map_filter_def)
  then show ?thesis by (rule anchor_item_description)
qed

lemma fallback_news_description:
  assumes "item \<in> set (fallback_news parse allImages anchors limit)"
  shows "description item = placeholder_description"
proof -
  from assms have "item \<in> set (array_sort (compare_news parse) (each_anchor allImages anchors []))"
    unfolding fallback_news_def by (rule in_set_takeD)
  then have "item \<in> set (each_anchor allImages anchors [])"
    by (simp only: set_array_sort)
  then show ?thesis by (rule each_anchor_description)
qed

lemma extract_news_fallback:
  "selectedSelector doc = [] \<Longrightarrow>
   extract_news parse doc limit =
     fallback_news parse (each_img (all_img doc) []) (all_a doc) limit"
  by (simp add: extract_news_def Let_def)

lemma anchor_document_selected: "selectedSelector (anchor_document anchors) = []"
  by (simp add: selectedSelector_empty_iff anchor_document_def blank_document_def)

lemma fetchNintendoNews_anchors:
  "fetchNintendoNews (page_runtime (anchor_document anchors)) limit =
     fallback_news node_date_parse [] anchors limit"
  by (simp add: fetchNintendoNews_page extract_news_fallback anchor_document_selected)
    (simp add: anchor_document_def blank_document_def)

section \<open>The order of the fallback's items\<close>

lemma fallback_sorted_when_dates_parse:
  assumes "\<forall>item\<in>set (each_anchor allImages anchors []).
      date item \<noteq> [] \<longrightarrow> parse (date item) \<noteq> None"
  shows "sorted_wrt (newest_first parse) (fallback_news parse allImages anchors limit)"
proof -
  from assms have "sorted_wrt (newest_first parse)
      (array_sort (compare_news parse) (each_anchor allImages anchors []))"
    by (rule array_sort_sorted)
  then show ?thesis
    unfolding fallback_news_def by (rule sorted_wrt_take_list)
qed

lemma dated_anchors_result:
  "map date (fetchNintendoNews (page_runtime (anchor_document dated_anchors)) 5) =
     [lit ''03/01/24'', lit ''02/15/24'', []]"
  by code_simp

lemma year_end_anchors_result:
  "map date (fetchNintendoNews (page_runtime (anchor_document year_end_anchors)) 5) =
     [lit ''01/05/24'', lit ''12/31/23'']"
  by code_simp

lemma four_anchors_result:
  "map title (fetchNintendoNews (page_runtime (anchor_document four_anchors)) 5) =
     [lit ''Two'', lit ''Four'', lit ''One'', lit ''Three'']"
  by code_simp

text \<open>
  C4 at two failing inputs. The comment over the sort says \<^verbatim>\<open>Sort by date (newest first)\<close>,
  and the comparison function guards an item that has no date; it does not guard a date
  token that the runtime's \<^verbatim>\<open>Date\<close> cannot read. The tokens 99/99/99 and 25/12/24
  (day first) have the form the regular expression accepts and give an invalid date,
  so every comparison with them is \<^verbatim>\<open>NaN\<close>, which the sort takes as equality. With
  the anchors dated 02/15/24, 99/99/99 and 03/01/24, in that order, the whole list is one
  ascending run and nothing moves: the item of 02/15/24 stays before the later one of
  03/01/24, and the returned list is not ordered newest first. The same happens with
  25/12/24 in the middle.
\<close>

theorem fallback_invalid_date_unsorted:
  "map date (fetchNintendoNews (page_runtime (anchor_document invalid_date_anchors)) 5) =
     [lit ''02/15/24'', lit ''99/99/99'', lit ''03/01/24''] \<and>
   node_date_parse (lit ''02/15/24'') = Some 1707955200000 \<and>
   node_date_parse (lit ''99/99/99'') = None \<and>
   node_date_parse (lit ''03/01/24'') = Some 1709251200000 \<and>
   \<not> sorted_wrt (newest_first node_date_parse)
       (fetchNintendoNews (page_runtime (anchor_document invalid_date_anchors)) 5) \<and>
   map date (fetchNintendoNews (page_runtime (anchor_document day_first_anchors)) 5) =
     [lit ''02/15/24'', lit ''25/12/24'', lit ''03/01/24''] \<and>
   node_date_parse (lit ''25/12/24'') = None \<and>
   \<not> sorted_wrt (newest_first node_date_parse)
       (fetchNintendoNews (page_runtime (anchor_document day_first_anchors)) 5)"
  by code_simp

section \<open>The description of the fallback's items\<close>

lemma enrich_description:
  assumes "description item = placeholder_description"
    and "description (enrich rt item) \<noteq> placeholder_description"
  shows "description (enrich rt item) = details_description (fetchArticleDetails rt (link item))"
  using assms by (auto simp add: enrich_def Let_def split: if_splits)

text \<open>
  C10: every item of the fallback has the description \<open>Nintendo news update\<close>, so has
  every item that \<open>fetchNintendoNews\<close> extracts from a page that matches no selector;
  and when the enrichment of such an item leaves another description, it is the one
  \<open>fetchArticleDetails\<close> returned for the item's link.
\<close>

theorem fallback_description_placeholder:
  "(\<forall>item\<in>set (fallback_news parse allImages anchors limit).
      description item = lit ''Nintendo news update'') \<and>
   (selectedSelector doc = [] \<longrightarrow>
      (\<forall>item\<in>set (extract_news parse doc limit).
         description item = lit ''Nintendo news update'')) \<and>
   (description item = lit ''Nintendo news update'' \<and>
    description (enrich rt item) \<noteq> lit ''Nintendo news update'' \<longrightarrow>
      description (enrich rt item) =
        details_description (fetchArticleDetails rt (link item)))"
proof (intro conjI impI ballI)
  fix it
  assume "it \<in> set (fallback_news parse allImages anchors limit)"
  then show "description it = lit ''Nintendo news update''"
    unfolding placeholder_description_def [symmetric] by (rule fallback_news_description)
next
  fix it
  assume "selectedSelector doc = []" and "it \<in> set (extract_news parse doc limit)"
  then have "it \<in> set (fallback_news parse (each_img (all_img doc) []) (all_a doc) limit)"
    by (simp add: extract_news_fallback)
  then show "description it = lit ''Nintendo news update''"
    unfolding placeholder_description_def [symmetric] by (rule fallback_news_description)
next
  assume "description item = lit ''Nintendo news update'' \<and>
    description (enrich rt item) \<noteq> lit ''Nintendo news update''"
  then show "description (enrich rt item) =
      details_description (fetchArticleDetails rt (link item))"
    unfolding placeholder_description_def [symmetric] by (intro enrich_description) simp_all
qed

lemma first_dated_item:
  "description (hd (fetchNintendoNews (page_runtime (anchor_document dated_anchors)) 1)) =
     lit ''Nintendo news update'' \<and>
   description (enrich (page_runtime described_document)
       (hd (fetchNintendoNews (page_runtime (anchor_document dated_anchors)) 1))) \<noteq>
     lit ''Nintendo news update''"
  by code_simp

lemma first_dated_item_enriched:
  "description (enrich (page_runtime described_document)
       (hd (fetchNintendoNews (page_runtime (anchor_document dated_anchors)) 1))) =
     lit ''A new trailer is out.''"
  by code_simp

theorem fallback_description_placeholder_witness:
  "selectedSelector (anchor_document dated_anchors) = [] \<and>
   length (extract_news node_date_parse (anchor_document dated_anchors) 5) = 3 \<and>
   list_all (\<lambda>item. description item = lit ''Nintendo news update'')
     (extract_news node_date_parse (anchor_document dated_anchors) 5) \<and>
   list_all (\<lambda>item. description item = lit ''Nintendo news update'')
     (fallback_news node_date_parse [] dated_anchors 5) \<and>
   description (hd (fetchNintendoNews (page_runtime (anchor_document dated_anchors)) 1)) =
     lit ''Nintendo news update'' \<and>
   description (enrich (page_runtime described_document)
       (hd (fetchNintendoNews (page_runtime (anchor_document dated_anchors)) 1))) =
     lit ''A new trailer is out.'' \<and>
   description (enrich (page_runtime described_document)
       (hd (fetchNintendoNews (page_runtime (anchor_document dated_anchors)) 1))) =
     details_description (fetchArticleDetails (page_runtime described_document)
       (link (hd (fetchNintendoNews (page_runtime (anchor_document dated_anchors)) 1))))"
proof -
  note inst = fallback_description_placeholder [of node_date_parse "[]" dated_anchors 5
      "anchor_document dated_anchors"
      "hd (fetchNintendoNews (page_runtime (anchor_document dated_anchors)) 1)"
      "page_runtime described_document"]
  have n: "length (extract_news node_date_parse (anchor_document dated_anchors) 5) = 3"
    by code_simp
  have a: "list_all (\<lambda>item. description item = lit ''Nintendo news update'')
     (fallback_news node_date_parse [] dated_anchors 5)"
    using inst [THEN conjunct1] by (simp only: list_all_iff)
  have b: "list_all (\<lambda>item. description item = lit ''Nintendo news update'')
     (extract_news node_date_parse (anchor_document dated_anchors) 5)"
    using inst [THEN conjunct2, THEN conjunct1, THEN mp, OF anchor_document_selected]
    by (simp only: list_all_iff)
  note c = inst [THEN conjunct2, THEN conjunct2, THEN mp, OF first_dated_item]
  show ?thesis
    by (intro conjI anchor_document_selected n a b first_dated_item [THEN conjunct1]
        first_dated_item_enriched c)
qed

section \<open>The title and the date of the fallback's items\<close>

lemma replace_first_empty_at:
  assumes "s = pre @ p @ post" and "\<forall>k<length pre. \<not> startsWith (drop k s) p"
  shows "replace_first_empty s p = pre @ post"
  using assms
proof (induction pre arbitrary: s)
  case Nil
  show ?case
  proof (cases s)
    case Nil
    with Nil.prems show ?thesis by simp
  next
    case (Cons c cs)
    from Nil.prems have "startsWith s p" by (simp add: startsWith_def)
    with Cons have "replace_first_empty s p = drop (length p) s" by simp
    also from Nil.prems(1) have "\<dots> = post" by simp
    finally show ?thesis by simp
  qed
next
  case (Cons c pre)
  from Cons.prems(2) have "\<not> startsWith (drop 0 s) p" by blast
  then have no: "\<not> startsWith (c # pre @ p @ post) p"
    using Cons.prems(1) by simp
  have "\<forall>k<length pre. \<not> startsWith (drop k (pre @ p @ post)) p"
  proof (intro allI impI)
    fix k
    assume "k < length pre"
    then have "Suc k < length (c # pre)" by simp
    with Cons.prems(2) have "\<not> startsWith (drop (Suc k) s) p" by blast
    then show "\<not> startsWith (drop k (pre @ p @ post)) p"
      using Cons.prems(1) by simp
  qed
  then have "replace_first_empty (pre @ p @ post) p = pre @ post"
    by (intro Cons.IH) simp_all
  with no show ?case
    using Cons.prems(1) by simp
qed

lemma js_includes_split:
  "js_includes s p \<Longrightarrow>
   \<exists>pre post. s = pre @ p @ post \<and> (\<forall>k<length pre. \<not> startsWith (drop k s) p)"
proof (induction s)
  case Nil
  then show ?case by simp
next
  case (Cons c cs)
  show ?case
  proof (cases "startsWith (c # cs) p")
    case True
    then have "c # cs = [] @ p @ drop (length p) (c # cs)"
      unfolding startsWith_def by (metis append_Nil append_take_drop_id)
    then show ?thesis by (metis length_0_conv not_less_zero list.size(3))
  next
    case False
    with Cons.prems have "js_includes cs p" by simp
    then obtain pre post where eq: "cs = pre @ p @ post"
      and first: "\<forall>k<length pre. \<not> startsWith (drop k cs) p"
      using Cons.IH by blast
    have "\<forall>k<length (c # pre). \<not> startsWith (drop k (c # cs)) p"
    proof (intro allI impI)
      fix k
      assume k: "k < length (c # pre)"
      show "\<not> startsWith (drop k (c # cs)) p"
      proof (cases k)
        case 0
        with False show ?thesis by simp
      next
        case (Suc j)
        with k first show ?thesis by simp
      qed
    qed
    moreover from eq have "c # cs = (c # pre) @ p @ post" by simp
    ultimately show ?thesis by blast
  qed
qed

lemma match_date_digits:
  assumes "is_digit m1" "is_digit m2" "is_digit d1" "is_digit d2" "is_digit y1" "is_digit y2"
  shows "match_date (m1 # m2 # slash # d1 # d2 # slash # y1 # y2 # rest) =
    Some [m1, m2, slash, d1, d2, slash, y1, y2]"
  using assms by simp

lemma match_date_SomeD:
  assumes "match_date s = Some m"
  shows "\<exists>m1 m2 d1 d2 y1 y2 rest.
     s = m1 # m2 # slash # d1 # d2 # slash # y1 # y2 # rest \<and>
     is_digit m1 \<and> is_digit m2 \<and> is_digit d1 \<and> is_digit d2 \<and> is_digit y1 \<and> is_digit y2"
  using assms by (cases s rule: match_date.cases) (auto split: if_splits)

lemma anchor_item_kept:
  "anchor_item allImages el \<noteq> None \<longleftrightarrow>
     trim (a_text el) \<noteq> [] \<and> truthy (a_href el) \<and> js_includes (trim (a_text el)) read_more"
  by (simp add: anchor_item_def Let_def)

lemma anchor_item_fields:
  assumes "anchor_item allImages el = Some item"
  shows "date item =
      (case match_date (trim (replace_first_empty (trim (a_text el)) read_more)) of
         None \<Rightarrow> [] | Some m \<Rightarrow> m)"
    and "title item =
      (case match_date (trim (replace_first_empty (trim (a_text el)) read_more)) of
         None \<Rightarrow> trim (replace_first_empty (trim (a_text el)) read_more)
       | Some m \<Rightarrow> trim (drop (length m) (trim (replace_first_empty (trim (a_text el)) read_more))))"
  using assms
  by (auto simp add: anchor_item_def Let_def substring_from_def split: if_splits option.splits)

lemma fetchNintendoNews_fallback_items:
  assumes "axios_get rt NINTENDO_NEWS_URL = Inr html \<and> load rt html = Inr doc \<and>
    selectedSelector doc = []"
  shows "fetchNintendoNews rt limit = take limit (array_sort (compare_news (date_parse rt))
    (List.map_filter (anchor_item (each_img (all_img doc) [])) (all_a doc)))"
  using assms
  by (simp add: fetchNintendoNews_def fetchNintendoNews_try_def extract_news_fallback
      fallback_news_def each_anchor_append)

text \<open>
  C6: an anchor is kept when its trimmed text is not empty, it has a target, and the
  text holds the marker \<open>Read more\<close>. The first occurrence of the marker is taken out
  and the rest is trimmed: that is the raw title. If the raw title starts with two
  digits, a slash, two digits, a slash and two digits, these eight units are the date
  of the item and the trimmed remainder is its title; if not, the date is empty and the
  title is the raw title. The loop over the anchors collects the items of the kept
  anchors, one for each, in the order of the page; and on a page that matches no
  selector, the items \<open>fetchNintendoNews\<close> returns are items of kept anchors of the
  page, each at most as often as the loop collected it, and all of them when \<open>limit\<close>
  leaves room.
\<close>

theorem fallback_title_and_date:
  "(anchor_item allImages el \<noteq> None \<longleftrightarrow>
      trim (a_text el) \<noteq> [] \<and> truthy (a_href el) \<and> js_includes (trim (a_text el)) read_more) \<and>
   (js_includes s read_more \<longrightarrow>
      (\<exists>pre post. s = pre @ read_more @ post \<and>
         (\<forall>k<length pre. \<not> startsWith (drop k s) read_more))) \<and>
   (anchor_item allImages el = Some item \<and> trim (a_text el) = pre @ read_more @ post \<and>
    (\<forall>k<length pre. \<not> startsWith (drop k (trim (a_text el))) read_more) \<and>
    rawTitle = trim (pre @ post) \<longrightarrow>
      (rawTitle = m1 # m2 # slash # d1 # d2 # slash # y1 # y2 # rest \<and>
       is_digit m1 \<and> is_digit m2 \<and> is_digit d1 \<and> is_digit d2 \<and> is_digit y1 \<and> is_digit y2 \<longrightarrow>
         date item = [m1, m2, slash, d1, d2, slash, y1, y2] \<and> title item = trim rest) \<and>
      ((\<nexists>a1 a2 b1 b2 c1 c2 r.
          rawTitle = a1 # a2 # slash # b1 # b2 # slash # c1 # c2 # r \<and>
          is_digit a1 \<and> is_digit a2 \<and> is_digit b1 \<and> is_digit b2 \<and> is_digit c1 \<and> is_digit c2) \<longrightarrow>
         date item = [] \<and> title item = rawTitle)) \<and>
   each_anchor allImages anchors [] = List.map_filter (anchor_item allImages) anchors \<and>
   (axios_get rt NINTENDO_NEWS_URL = Inr html \<and> load rt html = Inr doc \<and>
    selectedSelector doc = [] \<longrightarrow>
      mset (fetchNintendoNews rt limit) \<subseteq>#
        mset (List.map_filter (anchor_item (each_img (all_img doc) [])) (all_a doc)) \<and>
      (length (List.map_filter (anchor_item (each_img (all_img doc) [])) (all_a doc)) \<le> limit \<longrightarrow>
         mset (fetchNintendoNews rt limit) =
           mset (List.map_filter (anchor_item (each_img (all_img doc) [])) (all_a doc))) \<and>
      (\<forall>it\<in>set (fetchNintendoNews rt limit).
         \<exists>anchor\<in>set (all_a doc). anchor_item (each_img (all_img doc) []) anchor = Some it))"
proof (intro conjI impI)
  show "anchor_item allImages el \<noteq> None \<longleftrightarrow>
      trim (a_text el) \<noteq> [] \<and> truthy (a_href el) \<and> js_includes (trim (a_text el)) read_more"
    by (rule anchor_item_kept)
next
  assume "js_includes s read_more"
  then show "\<exists>pre post. s = pre @ read_more @ post \<and>
      (\<forall>k<length pre. \<not> startsWith (drop k s) read_more)"
    by (rule js_includes_split)
next
  assume h: "anchor_item allImages el = Some item \<and> trim (a_text el) = pre @ read_more @ post \<and>
    (\<forall>k<length pre. \<not> startsWith (drop k (trim (a_text el))) read_more) \<and>
    rawTitle = trim (pre @ post)"
  from h have item: "anchor_item allImages el = Some item"
    by (elim conjE)
  from h have eq: "trim (a_text el) = pre @ read_more @ post"
    by (elim conjE)
  from h have first: "\<forall>k<length pre. \<not> startsWith (drop k (trim (a_text el))) read_more"
    by (elim conjE)
  from h have rt: "rawTitle = trim (pre @ post)"
    by (elim conjE)
  from eq first have "replace_first_empty (trim (a_text el)) read_more = pre @ post"
    by (rule replace_first_empty_at)
  with rt have raw: "trim (replace_first_empty (trim (a_text el)) read_more) = rawTitle"
    by simp
  note fields = anchor_item_fields [OF item, unfolded raw]
  {
    assume "rawTitle = m1 # m2 # slash # d1 # d2 # slash # y1 # y2 # rest \<and>
       is_digit m1 \<and> is_digit m2 \<and> is_digit d1 \<and> is_digit d2 \<and> is_digit y1 \<and> is_digit y2"
    then have md: "match_date rawTitle = Some [m1, m2, slash, d1, d2, slash, y1, y2]"
      and r: "rawTitle = m1 # m2 # slash # d1 # d2 # slash # y1 # y2 # rest"
      by (simp_all add: match_date_digits)
    from fields(1) md show "date item = [m1, m2, slash, d1, d2, slash, y1, y2]"
      by simp
    from fields(2) md have "title item = trim (drop (length [m1, m2, slash, d1, d2, slash, y1, y2]) rawTitle)"
      by simp
    also have "drop (length [m1, m2, slash, d1, d2, slash, y1, y2]) rawTitle = rest"
      unfolding r by simp
    finally show "title item = trim rest" .
  next
    assume "\<nexists>a1 a2 b1 b2 c1 c2 r.
          rawTitle = a1 # a2 # slash # b1 # b2 # slash # c1 # c2 # r \<and>
          is_digit a1 \<and> is_digit a2 \<and> is_digit b1 \<and> is_digit b2 \<and> is_digit c1 \<and> is_digit c2"
    then have "match_date rawTitle = None"
      using match_date_SomeD [of rawTitle] by (cases "match_date rawTitle") auto
    with fields show "date item = []" and "title item = rawTitle"
      by simp_all
  }
next
  show "each_anchor allImages anchors [] = List.map_filter (anchor_item allImages) anchors"
    by (simp add: each_anchor_append)
next
  assume "axios_get rt NINTENDO_NEWS_URL = Inr html \<and> load rt html = Inr doc \<and>
    selectedSelector doc = []"
  then have "fetchNintendoNews rt limit = take limit (array_sort (compare_news (date_parse rt))
      (List.map_filter (anchor_item (each_img (all_img doc) [])) (all_a doc)))"
    by (rule fetchNintendoNews_fallback_items)
  then show "mset (fetchNintendoNews rt limit) \<subseteq>#
      mset (List.map_filter (anchor_item (each_img (all_img doc) [])) (all_a doc))"
    using mset_take_subset [of limit "array_sort (compare_news (date_parse rt))
      (List.map_filter (anchor_item (each_img (all_img doc) [])) (all_a doc))"]
    by (simp add: mset_array_sort)
next
  assume path: "axios_get rt NINTENDO_NEWS_URL = Inr html \<and> load rt html = Inr doc \<and>
    selectedSelector doc = []"
    and few: "length (List.map_filter (anchor_item (each_img (all_img doc) [])) (all_a doc)) \<le> limit"
  from path have "fetchNintendoNews rt limit = take limit (array_sort (compare_news (date_parse rt))
      (List.map_filter (anchor_item (each_img (all_img doc) [])) (all_a doc)))"
    by (rule fetchNintendoNews_fallback_items)
  with few have "fetchNintendoNews rt limit = array_sort (compare_news (date_parse rt))
      (List.map_filter (anchor_item (each_img (all_img doc) [])) (all_a doc))"
    by (simp add: length_array_sort)
  then show "mset (fetchNintendoNews rt limit) =
      mset (List.map_filter (anchor_item (each_img (all_img doc) [])) (all_a doc))"
    by (simp add: mset_array_sort)
next
  assume "axios_get rt NINTENDO_NEWS_URL = Inr html \<and> load rt html = Inr doc \<and>
    selectedSelector doc = []"
  then have eq: "fetchNintendoNews rt limit = take limit (array_sort (compare_news (date_parse rt))
      (List.map_filter (anchor_item (each_img (all_img doc) [])) (all_a doc)))"
    by (rule fetchNintendoNews_fallback_items)
  show "\<forall>it\<in>set (fetchNintendoNews rt limit).
      \<exists>anchor\<in>set (all_a doc). anchor_item (each_img (all_img doc) []) anchor = Some it"
  proof
    fix it
    assume "it \<in> set (fetchNintendoNews rt limit)"
    then have "it \<in> set (array_sort (compare_news (date_parse rt))
        (List.map_filter (anchor_item (each_img (all_img doc) [])) (all_a doc)))"
      unfolding eq by (rule in_set_takeD)
    then have "it \<in> set (List.map_filter (anchor_item (each_img (all_img doc) [])) (all_a doc))"
      by (simp only: set_array_sort)
    then show "\<exists>anchor\<in>set (all_a doc). anchor_item (each_img (all_img doc) []) anchor = Some it"
      by (auto simp add: List.map_filter_def)
  qed
qed

theorem fallback_title_and_date_witness:
  "anchor_item [] (plain_anchor (lit ''02/15/24Patch notes Read more'') (lit ''news/patch'')) \<noteq> None \<and>
   trim (lit ''02/15/24Patch notes Read more'') = lit ''02/15/24Patch notes '' @ read_more @ [] \<and>
   date (the (anchor_item [] (plain_anchor (lit ''02/15/24Patch notes Read more'') (lit ''news/patch'')))) =
     lit ''02/15/24'' \<and>
   title (the (anchor_item [] (plain_anchor (lit ''02/15/24Patch notes Read more'') (lit ''news/patch'')))) =
     lit ''Patch notes'' \<and>
   anchor_item [] (plain_anchor (lit ''Community night Read more'') (lit ''/c'')) \<noteq> None \<and>
   trim (lit ''Community night Read more'') = lit ''Community night '' @ read_more @ [] \<and>
   date (the (anchor_item [] (plain_anchor (lit ''Community night Read more'') (lit ''/c'')))) = [] \<and>
   title (the (anchor_item [] (plain_anchor (lit ''Community night Read more'') (lit ''/c'')))) =
     lit ''Community night'' \<and>
   (\<exists>pre post. lit ''Community night Read more'' = pre @ read_more @ post) \<and>
   each_anchor [] dated_anchors [] = List.map_filter (anchor_item []) dated_anchors \<and>
   length (each_anchor [] dated_anchors []) = 3 \<and>
   selectedSelector (anchor_document dated_anchors) = [] \<and>
   mset (fetchNintendoNews (page_runtime (anchor_document dated_anchors)) 5) =
     mset (List.map_filter (anchor_item (each_img (all_img (anchor_document dated_anchors)) []))
       (all_a (anchor_document dated_anchors))) \<and>
   mset (fetchNintendoNews (page_runtime (anchor_document dated_anchors)) 2) \<subseteq>#
     mset (List.map_filter (anchor_item (each_img (all_img (anchor_document dated_anchors)) []))
       (all_a (anchor_document dated_anchors))) \<and>
   (\<exists>anchor\<in>set (all_a (anchor_document dated_anchors)).
      anchor_item (each_img (all_img (anchor_document dated_anchors)) []) anchor =
        Some (hd (fetchNintendoNews (page_runtime (anchor_document dated_anchors)) 5))) \<and>
   map title (fetchNintendoNews (page_runtime (anchor_document dated_anchors)) 5) =
     [lit ''New trailer'', lit ''Patch notes'', lit ''Community night''] \<and>
   map date (fetchNintendoNews (page_runtime (anchor_document dated_anchors)) 5) =
     [lit ''03/01/24'', lit ''02/15/24'', []]"
proof -
  let ?e1 = "plain_anchor (lit ''02/15/24Patch notes Read more'') (lit ''news/patch'')"
  let ?e2 = "plain_anchor (lit ''Community night Read more'') (lit ''/c'')"
  let ?p1 = "lit ''02/15/24Patch notes ''"
  let ?p2 = "lit ''Community night ''"
  have kept1: "trim (a_text ?e1) \<noteq> [] \<and> truthy (a_href ?e1) \<and>
      js_includes (trim (a_text ?e1)) read_more"
    by code_simp
  have kept2: "trim (a_text ?e2) \<noteq> [] \<and> truthy (a_href ?e2) \<and>
      js_includes (trim (a_text ?e2)) read_more"
    by code_simp
  have k1: "anchor_item [] ?e1 \<noteq> None"
    using fallback_title_and_date [where allImages = "[]" and el = ?e1, THEN conjunct1] kept1
    by (rule iffD2)
  have k2: "anchor_item [] ?e2 \<noteq> None"
    using fallback_title_and_date [where allImages = "[]" and el = ?e2, THEN conjunct1] kept2
    by (rule iffD2)
  from k1 have s1: "anchor_item [] ?e1 = Some (the (anchor_item [] ?e1))" by simp
  from k2 have s2: "anchor_item [] ?e2 = Some (the (anchor_item [] ?e2))" by simp
  have eq1: "trim (a_text ?e1) = ?p1 @ read_more @ []" by code_simp
  have eq2: "trim (a_text ?e2) = ?p2 @ read_more @ []" by code_simp
  have "list_all (\<lambda>k. \<not> startsWith (drop k (trim (a_text ?e1))) read_more) [0..<length ?p1]"
    by code_simp
  then have first1: "\<forall>k<length ?p1. \<not> startsWith (drop k (trim (a_text ?e1))) read_more"
    by (simp add: list_all_iff)
  have "list_all (\<lambda>k. \<not> startsWith (drop k (trim (a_text ?e2))) read_more) [0..<length ?p2]"
    by code_simp
  then have first2: "\<forall>k<length ?p2. \<not> startsWith (drop k (trim (a_text ?e2))) read_more"
    by (simp add: list_all_iff)
  have raw1: "lit ''02/15/24Patch notes'' = trim (?p1 @ [])" by code_simp
  have raw2: "lit ''Community night'' = trim (?p2 @ [])" by code_simp
  have shape1: "lit ''02/15/24Patch notes'' =
      0x30 # 0x32 # slash # 0x31 # 0x35 # slash # 0x32 # 0x34 # lit ''Patch notes'' \<and>
      is_digit 0x30 \<and> is_digit 0x32 \<and> is_digit 0x31 \<and> is_digit 0x35 \<and> is_digit 0x32 \<and>
      is_digit 0x34"
    by code_simp
  have shape2: "\<nexists>a1 a2 b1 b2 c1 c2 r.
      lit ''Community night'' = a1 # a2 # slash # b1 # b2 # slash # c1 # c2 # r \<and>
      is_digit a1 \<and> is_digit a2 \<and> is_digit b1 \<and> is_digit b2 \<and> is_digit c1 \<and> is_digit c2"
    by (simp add: lit_def is_digit_def)
  note r1 = fallback_title_and_date [where allImages = "[]" and el = ?e1
      and item = "the (anchor_item [] ?e1)" and pre = ?p1 and post = "[]"
      and rawTitle = "lit ''02/15/24Patch notes''"
      and ?m1.0 = "0x30" and ?m2.0 = "0x32" and ?d1.0 = "0x31" and ?d2.0 = "0x35"
      and ?y1.0 = "0x32" and ?y2.0 = "0x34" and rest = "lit ''Patch notes''",
      THEN conjunct2, THEN conjunct2, THEN conjunct1, THEN mp,
      OF conjI [OF s1 conjI [OF eq1 conjI [OF first1 raw1]]], THEN conjunct1, THEN mp, OF shape1]
  note r2 = fallback_title_and_date [where allImages = "[]" and el = ?e2
      and item = "the (anchor_item [] ?e2)" and pre = ?p2 and post = "[]"
      and rawTitle = "lit ''Community night''",
      THEN conjunct2, THEN conjunct2, THEN conjunct1, THEN mp,
      OF conjI [OF s2 conjI [OF eq2 conjI [OF first2 raw2]]], THEN conjunct2, THEN mp, OF shape2]
  have inc: "js_includes (lit ''Community night Read more'') read_more" by code_simp
  from fallback_title_and_date [where s = "lit ''Community night Read more''",
      THEN conjunct2, THEN conjunct1, THEN mp, OF inc]
  have ex: "\<exists>pre post. lit ''Community night Read more'' = pre @ read_more @ post"
    by blast
  have d1: "[0x30, 0x32, slash, 0x31, 0x35, slash, 0x32, 0x34] = lit ''02/15/24''"
    by code_simp
  have t1: "trim (lit ''Patch notes'') = lit ''Patch notes''"
    by code_simp
  have a1: "trim (lit ''02/15/24Patch notes Read more'') = ?p1 @ read_more @ []"
    by code_simp
  have a2: "trim (lit ''Community night Read more'') = ?p2 @ read_more @ []"
    by code_simp
  let ?doc = "anchor_document dated_anchors"
  let ?rt = "page_runtime ?doc"
  have loop: "each_anchor [] dated_anchors [] = List.map_filter (anchor_item []) dated_anchors"
    by (rule fallback_title_and_date [where allImages = "[]" and anchors = dated_anchors,
          THEN conjunct2, THEN conjunct2, THEN conjunct2, THEN conjunct1])
  have three: "length (each_anchor [] dated_anchors []) = 3"
    by code_simp
  have path: "axios_get ?rt NINTENDO_NEWS_URL = Inr (lit ''<html></html>'') \<and>
      load ?rt (lit ''<html></html>'') = Inr ?doc \<and> selectedSelector ?doc = []"
    by (simp add: page_runtime_def anchor_document_selected)
  note p5 = fallback_title_and_date [where rt = ?rt and html = "lit ''<html></html>''"
      and doc = ?doc and limit = 5,
      THEN conjunct2, THEN conjunct2, THEN conjunct2, THEN conjunct2, THEN mp, OF path]
  note p2 = fallback_title_and_date [where rt = ?rt and html = "lit ''<html></html>''"
      and doc = ?doc and limit = 2,
      THEN conjunct2, THEN conjunct2, THEN conjunct2, THEN conjunct2, THEN mp, OF path]
  have few: "length (List.map_filter (anchor_item (each_img (all_img ?doc) [])) (all_a ?doc)) \<le> 5"
    by code_simp
  note all5 = p5 [THEN conjunct2, THEN conjunct1, THEN mp, OF few]
  note sub2 = p2 [THEN conjunct1]
  have "fetchNintendoNews ?rt 5 \<noteq> []"
    by code_simp
  then have "hd (fetchNintendoNews ?rt 5) \<in> set (fetchNintendoNews ?rt 5)"
    by (rule hd_in_set)
  with p5 [THEN conjunct2, THEN conjunct2]
  have from_anchor: "\<exists>anchor\<in>set (all_a ?doc).
      anchor_item (each_img (all_img ?doc) []) anchor = Some (hd (fetchNintendoNews ?rt 5))"
    by (rule bspec)
  have titles: "map title (fetchNintendoNews ?rt 5) =
      [lit ''New trailer'', lit ''Patch notes'', lit ''Community night'']"
    by code_simp
  have dates: "map date (fetchNintendoNews ?rt 5) = [lit ''03/01/24'', lit ''02/15/24'', []]"
    by code_simp
  show ?thesis
    using r1 r2
    by (intro conjI k1 k2 a1 a2 ex loop three anchor_document_selected all5 sub2 from_anchor
        titles dates) (simp_all only: d1 t1)
qed

end
